theory Spec2Isabelle
  imports Complex_Main "HOL-Library.Multiset" "HOL-Library.List_Lexorder" "HOL-Library.Char_ord"
begin

section \<open>Time, timestamps and the parts of the Python library the ledger relies on\<close>

text \<open>
  A \<open>datetime\<close> is its instant: microseconds since the Unix epoch, as an \<open>int\<close>. A
  \<open>timedelta\<close> is a number of microseconds. Python's \<open>datetime\<close> covers the years 1 to
  9999 and raises \<open>OverflowError\<close> when arithmetic leaves that range; \<open>timedelta\<close> raises
  it when its day count exceeds 999999999 in magnitude. \<open>rows[0]\<close> on an empty list raises
  \<open>IndexError\<close>.

  Timestamps are stored as TEXT. The renderings \<open>datetime.isoformat()\<close>,
  \<open>isoformat(timespec="seconds")\<close> and the parser \<open>datetime.fromisoformat\<close> belong to the
  Python library, not to the repository, so they are parameters of the model, collected
  in a \<open>codec\<close>. \<open>fromisoformat c s = None\<close> stands for the parser raising on \<open>s\<close>; every
  text that parses is taken to carry a UTC offset, as every text the ledger writes does.
  SQLite compares TEXT bytewise, which is the lexicographic order on \<open>string\<close>.
\<close>

datatype py_error = IndexError | OverflowError

record codec =
  isoformat :: "int \<Rightarrow> string"
  isoformat_seconds :: "int \<Rightarrow> string"
  fromisoformat :: "string \<Rightarrow> int option"

definition MIN_DATETIME :: int where
  "MIN_DATETIME = - 62135596800000000"

definition MAX_DATETIME :: int where
  "MAX_DATETIME = 253402300799999999"

definition valid_datetime :: "int \<Rightarrow> bool" where
  "valid_datetime t \<longleftrightarrow> MIN_DATETIME \<le> t \<and> t \<le> MAX_DATETIME"

definition timedelta_seconds :: "int \<Rightarrow> py_error + int" where
  "timedelta_seconds s =
     (if - 999999999 \<le> s div 86400 \<and> s div 86400 \<le> 999999999
      then Inr (s * 1000000) else Inl OverflowError)"

definition timedelta_days :: "int \<Rightarrow> int" where
  "timedelta_days d = d * 86400 * 1000000"

definition datetime_add :: "int \<Rightarrow> int \<Rightarrow> py_error + int" where
  "datetime_add t d = (if valid_datetime (t + d) then Inr (t + d) else Inl OverflowError)"

definition datetime_sub :: "int \<Rightarrow> int \<Rightarrow> py_error + int" where
  "datetime_sub t d = datetime_add t (- d)"

text \<open>
  \<open>int(td.total_seconds())\<close>: the seconds of a timedelta, truncated towards zero. The
  float that \<open>total_seconds\<close> returns is exact enough for the truncation to agree with
  this integer computation whenever the difference is below \<open>2 ^ 53\<close> microseconds.
\<close>

definition int_total_seconds :: "int \<Rightarrow> int" where
  "int_total_seconds d = (if 0 \<le> d then d div 1000000 else - ((- d) div 1000000))"

text \<open>\<open>core/utils.py\<close>\<close>

definition utc_now_iso :: "codec \<Rightarrow> int \<Rightarrow> string" where
  "utc_now_iso c now = isoformat_seconds c now"

definition parse_iso_utc :: "codec \<Rightarrow> string \<Rightarrow> int option" where
  "parse_iso_utc c ts = (if ts = [] then None else fromisoformat c ts)"

section \<open>The ledger: the tables of \<open>core/db.py\<close>\<close>

record rep_user_row =
  user_id :: int
  rep :: int
  user_name :: string
  last_updated :: string

record rep_message_row =
  message_id :: int
  author_id :: int
  author_name :: string
  created_at :: string

record rep_vote_row =
  vote_message_id :: int
  voter_id :: int
  vote :: int

record broadcast_action_row =
  action_user_id :: int
  used_at :: string

record maintenance_row =
  maintenance_id :: int
  last_prune_at :: "string option"

record ledger =
  rep_users :: "rep_user_row list"
  rep_messages :: "rep_message_row list"
  rep_votes :: "rep_vote_row list"
  broadcast_actions :: "broadcast_action_row list"
  maintenance :: "maintenance_row list"

text \<open>
  A connection works on a private copy of the database. \<open>commit\<close> writes the copy back;
  \<open>close\<close> without \<open>commit\<close> drops what was executed since the last commit, as
  \<open>sqlite3\<close> does.
\<close>

record conn =
  on_disk :: ledger
  pending :: ledger

definition connect :: "ledger \<Rightarrow> conn" where
  "connect db = \<lparr>on_disk = db, pending = db\<rparr>"

definition execute :: "(ledger \<Rightarrow> ledger) \<Rightarrow> conn \<Rightarrow> conn" where
  "execute stmt cn = cn\<lparr>pending := stmt (pending cn)\<rparr>"

definition commit :: "conn \<Rightarrow> conn" where
  "commit cn = cn\<lparr>on_disk := pending cn\<rparr>"

definition close :: "conn \<Rightarrow> ledger" where
  "close cn = on_disk cn"

definition REP_TTL_SECONDS :: int where
  "REP_TTL_SECONDS = 4 * 60 * 60"

subsection \<open>Reputation accounts\<close>

definition get_rep :: "ledger \<Rightarrow> int \<Rightarrow> int" where
  "get_rep db uid =
     (case find (\<lambda>r. user_id r = uid) (rep_users db) of
        None \<Rightarrow> 0
      | Some r \<Rightarrow> rep r)"

definition ensure_rep_user :: "codec \<Rightarrow> int \<Rightarrow> ledger \<Rightarrow> int \<Rightarrow> string \<Rightarrow> ledger" where
  "ensure_rep_user c now db uid name =
     (let cn = connect db in
      case find (\<lambda>r. user_id r = uid) (rep_users (pending cn)) of
        None \<Rightarrow>
          close (commit (execute (\<lambda>d. d\<lparr>rep_users := rep_users d @
            [\<lparr>user_id = uid, rep = 0, user_name = name, last_updated = utc_now_iso c now\<rparr>]\<rparr>) cn))
      | Some r \<Rightarrow>
          close (commit (execute (\<lambda>d. d\<lparr>rep_users := map (\<lambda>x. if user_id x = uid
            then x\<lparr>user_name := name, last_updated := utc_now_iso c now\<rparr> else x) (rep_users d)\<rparr>) cn)))"

definition adjust_rep :: "codec \<Rightarrow> int \<Rightarrow> ledger \<Rightarrow> int \<Rightarrow> int \<Rightarrow> ledger" where
  "adjust_rep c now db uid delta =
     (let cn = connect db in
      case find (\<lambda>r. user_id r = uid) (rep_users (pending cn)) of
        None \<Rightarrow> close (commit cn)
      | Some r \<Rightarrow>
          close (commit (execute (\<lambda>d. d\<lparr>rep_users := map (\<lambda>x. if user_id x = uid
            then x\<lparr>rep := rep r + delta, last_updated := utc_now_iso c now\<rparr> else x) (rep_users d)\<rparr>) cn)))"

definition has_account :: "ledger \<Rightarrow> int \<Rightarrow> bool" where
  "has_account db uid \<longleftrightarrow> find (\<lambda>r. user_id r = uid) (rep_users db) \<noteq> None"

subsection \<open>Tracked messages and votes\<close>


definition get_rep_message :: "ledger \<Rightarrow> int \<Rightarrow> rep_message_row option" where
  "get_rep_message db mid = find (\<lambda>r. message_id r = mid) (rep_messages db)"

definition get_vote :: "ledger \<Rightarrow> int \<Rightarrow> int \<Rightarrow> int option" where
  "get_vote db mid vid =
     map_option vote (find (\<lambda>r. vote_message_id r = mid \<and> voter_id r = vid) (rep_votes db))"

definition set_vote :: "ledger \<Rightarrow> int \<Rightarrow> int \<Rightarrow> int \<Rightarrow> ledger" where
  "set_vote db mid vid v =
     close (commit (execute (\<lambda>d. d\<lparr>rep_votes :=
       filter (\<lambda>r. \<not> (vote_message_id r = mid \<and> voter_id r = vid)) (rep_votes d) @
       [\<lparr>vote_message_id = mid, voter_id = vid, vote = v\<rparr>]\<rparr>) (connect db)))"

definition delete_vote :: "ledger \<Rightarrow> int \<Rightarrow> int \<Rightarrow> ledger" where
  "delete_vote db mid vid =
     close (commit (execute (\<lambda>d. d\<lparr>rep_votes :=
       filter (\<lambda>r. \<not> (vote_message_id r = mid \<and> voter_id r = vid)) (rep_votes d)\<rparr>) (connect db)))"

definition delete_rep_message :: "ledger \<Rightarrow> int \<Rightarrow> ledger" where
  "delete_rep_message db mid =
     close (commit (
       execute (\<lambda>d. d\<lparr>rep_messages := filter (\<lambda>r. message_id r \<noteq> mid) (rep_messages d)\<rparr>) (
       execute (\<lambda>d. d\<lparr>rep_votes := filter (\<lambda>r. vote_message_id r \<noteq> mid) (rep_votes d)\<rparr>)
         (connect db))))"

text \<open>The vote rows of one message, for stating what a deletion leaves.\<close>

definition message_votes :: "ledger \<Rightarrow> int \<Rightarrow> rep_vote_row list" where
  "message_votes db mid = filter (\<lambda>r. vote_message_id r = mid) (rep_votes db)"

definition within_rep_window :: "codec \<Rightarrow> int \<Rightarrow> string \<Rightarrow> bool" where
  "within_rep_window c now created_at_iso =
     (case parse_iso_utc c created_at_iso of
        None \<Rightarrow> False
      | Some t \<Rightarrow> now - t \<le> REP_TTL_SECONDS * 1000000)"

text \<open>
  \<open>prune_rep\<close> reads the clock twice: \<open>now\<close> decides which messages are expired,
  \<open>now_marker\<close> is the later reading that \<open>utc_now_iso()\<close> writes to the maintenance row.
  \<open>expired_ids\<close> is the loop that collects the expired message ids.
\<close>

definition expired_ids :: "codec \<Rightarrow> int \<Rightarrow> rep_message_row list \<Rightarrow> int list" where
  "expired_ids c now rows =
     map message_id (filter (\<lambda>r.
       case parse_iso_utc c (created_at r) of
         None \<Rightarrow> False
       | Some t \<Rightarrow> now - t > REP_TTL_SECONDS * 1000000) rows)"

definition prune_rep :: "codec \<Rightarrow> int \<Rightarrow> int \<Rightarrow> ledger \<Rightarrow> ledger" where
  "prune_rep c now now_marker db =
     (let cn = connect db;
          rows = rep_messages (pending cn);
          expired = expired_ids c now rows;
          cn1 = (if expired \<noteq> []
                 then execute (\<lambda>d. d\<lparr>rep_messages :=
                        filter (\<lambda>r. message_id r \<notin> set expired) (rep_messages d)\<rparr>) (
                      execute (\<lambda>d. d\<lparr>rep_votes :=
                        filter (\<lambda>r. vote_message_id r \<notin> set expired) (rep_votes d)\<rparr>) cn)
                 else cn);
          cn2 = execute (\<lambda>d. d\<lparr>maintenance := map (\<lambda>m. if maintenance_id m = 1
                  then m\<lparr>last_prune_at := Some (utc_now_iso c now_marker)\<rparr> else m)
                  (maintenance d)\<rparr>) cn1
      in close (commit cn2))"

section \<open>The tier curve of \<open>cogs/reputation.py\<close>\<close>

text \<open>
  The source computes the curve in binary floating point; the model computes it in the
  reals, with \<open>LOG_BASE\<close> the decimal constant of the source. \<open>py_round\<close> is Python's
  \<open>round\<close>: to the nearest integer, a tie going to the even one. On scores up to zero
  \<open>rep_level\<close> returns before any arithmetic, and \<open>rep_threshold(0)\<close> multiplies by an
  exact zero, so there the two computations agree to the last bit.
\<close>

definition TIER_NAMES :: "string list" where
  "TIER_NAMES = [''Recruit'', ''Regular'', ''Trusted'', ''Veteran'', ''Elite'', ''Legend'']"

definition LOG_BASE :: real where
  "LOG_BASE = 18667452839806598 / 10000000000000000"

definition LOG_SCALE :: real where
  "LOG_SCALE = 10 / (LOG_BASE - 1)"

definition py_round :: "real \<Rightarrow> int" where
  "py_round x =
     (if x - of_int \<lfloor>x\<rfloor> < 1 / 2 then \<lfloor>x\<rfloor>
      else if 1 / 2 < x - of_int \<lfloor>x\<rfloor> then \<lfloor>x\<rfloor> + 1
      else if even \<lfloor>x\<rfloor> then \<lfloor>x\<rfloor> else \<lfloor>x\<rfloor> + 1)"

definition rep_threshold :: "int \<Rightarrow> int" where
  "rep_threshold level =
     max 0 (py_round (LOG_SCALE * (LOG_BASE ^ nat (max 0 level) - 1)))"

definition rep_level :: "int \<Rightarrow> int" where
  "rep_level r =
     (if r \<le> 0 then 0
      else max 0 (min \<lfloor>log LOG_BASE (of_int r / LOG_SCALE + 1)\<rfloor> (int (length TIER_NAMES) - 1)))"

section \<open>The quota check of \<open>core/db.py\<close>\<close>

text \<open>
  The three SQL statements of \<open>check_and_consume_broadcast_quota\<close>, then the function.
  The two \<open>timedelta\<close> computations that precede the lock can raise; so can \<open>rows[0]\<close> and
  the addition that gives \<open>unblock_at\<close>. An exception leaves the function without a
  commit, as do the two denying returns, which close the connection without one: the
  ledger is then the one on disk before the call. Only the allowing return commits.
  \<open>run_quota\<close> is a sequence of calls for one user with fixed limits, one call per clock
  reading in the list.
\<close>

definition delete_actions_before :: "codec \<Rightarrow> int \<Rightarrow> ledger \<Rightarrow> ledger" where
  "delete_actions_before c prune_before d =
     d\<lparr>broadcast_actions :=
         filter (\<lambda>r. \<not> used_at r < isoformat c prune_before) (broadcast_actions d)\<rparr>"

definition select_actions_since :: "codec \<Rightarrow> ledger \<Rightarrow> int \<Rightarrow> int \<Rightarrow> broadcast_action_row list" where
  "select_actions_since c d uid window_start =
     sort_key used_at
       (filter (\<lambda>r. action_user_id r = uid \<and> isoformat c window_start \<le> used_at r)
          (broadcast_actions d))"

definition insert_action :: "codec \<Rightarrow> int \<Rightarrow> int \<Rightarrow> ledger \<Rightarrow> ledger" where
  "insert_action c uid now d =
     d\<lparr>broadcast_actions := broadcast_actions d @
         [\<lparr>action_user_id = uid, used_at = isoformat c now\<rparr>]\<rparr>"

definition check_and_consume_broadcast_quota ::
  "codec \<Rightarrow> int \<Rightarrow> ledger \<Rightarrow> int \<Rightarrow> int \<Rightarrow> int \<Rightarrow> (py_error + bool \<times> int) \<times> ledger" where
  "check_and_consume_broadcast_quota c now db uid max_actions window_seconds =
     (case timedelta_seconds window_seconds of
        Inl e \<Rightarrow> (Inl e, db)
      | Inr window \<Rightarrow>
     (case datetime_sub now window of
        Inl e \<Rightarrow> (Inl e, db)
      | Inr window_start \<Rightarrow>
     (let cn = connect db in
      case datetime_sub now (timedelta_days 2) of
        Inl e \<Rightarrow> (Inl e, close cn)
      | Inr prune_before \<Rightarrow>
     (let cn1 = execute (delete_actions_before c prune_before) cn;
          rows = select_actions_since c (pending cn1) uid window_start
      in if max_actions \<le> int (length rows)
         then (case rows of
                 [] \<Rightarrow> (Inl IndexError, close cn1)
               | oldest # _ \<Rightarrow>
                  (case parse_iso_utc c (used_at oldest) of
                     None \<Rightarrow> (Inr (False, 30), close cn1)
                   | Some oldest_dt \<Rightarrow>
                      (case datetime_add oldest_dt window of
                         Inl e \<Rightarrow> (Inl e, close cn1)
                       | Inr unblock_at \<Rightarrow>
                           (Inr (False, max 1 (int_total_seconds (unblock_at - now))),
                            close cn1))))
         else (Inr (True, 0), close (commit (execute (insert_action c uid now) cn1)))))))"

fun run_quota ::
  "codec \<Rightarrow> int \<Rightarrow> int \<Rightarrow> int \<Rightarrow> int list \<Rightarrow> ledger
     \<Rightarrow> (py_error + bool \<times> int) list \<times> ledger" where
  "run_quota c uid max_actions window_seconds [] db = ([], db)"
| "run_quota c uid max_actions window_seconds (now # nows) db =
     (let (r, db1) = check_and_consume_broadcast_quota c now db uid max_actions window_seconds;
          (rs, db2) = run_quota c uid max_actions window_seconds nows db1
      in (r # rs, db2))"

subsection \<open>Notions for stating the sliding window\<close>

text \<open>
  \<open>isoformat_monotone\<close> is what the SQL comparisons of \<open>used_at\<close> texts rely on: on the
  datetimes Python can represent, a later instant never renders to a smaller text. It
  holds of \<open>isoformat()\<close> on UTC datetimes, whose fields are zero-padded and most
  significant first. \<open>allowed_times\<close> are the clock readings of the calls of a run that
  returned \<open>(True, 0)\<close>, and \<open>in_trailing_window w T\<close> is the interval of \<open>w\<close> seconds that
  ends at \<open>T\<close>.
\<close>

definition isoformat_monotone :: "codec \<Rightarrow> bool" where
  "isoformat_monotone c \<longleftrightarrow>
     (\<forall>a b. valid_datetime a \<and> valid_datetime b \<and> a \<le> b \<longrightarrow> isoformat c a \<le> isoformat c b)"

definition allowed_times :: "int list \<Rightarrow> (py_error + bool \<times> int) list \<Rightarrow> int list" where
  "allowed_times nows results =
     map fst (filter (\<lambda>(t, r). r = Inr (True, 0)) (zip nows results))"

definition in_trailing_window :: "int \<Rightarrow> int \<Rightarrow> int \<Rightarrow> bool" where
  "in_trailing_window window_seconds T t \<longleftrightarrow> T - window_seconds * 1000000 \<le> t \<and> t \<le> T"

text \<open>
  The wait the specification asks a denied call to report, in its words: the \<open>used_at\<close> of
  the oldest row of the user inside the current window, plus the window, minus now, as
  whole seconds and at least 1. It is \<open>None\<close> when that text is no timestamp. It is
  defined apart from the function and compared with it in C1.
\<close>

definition retry_after_spec :: "codec \<Rightarrow> ledger \<Rightarrow> int \<Rightarrow> int \<Rightarrow> int \<Rightarrow> int option" where
  "retry_after_spec c db uid now window_seconds =
     (let in_window = filter (\<lambda>r. action_user_id r = uid \<and>
                          isoformat c (now - window_seconds * 1000000) \<le> used_at r)
                        (broadcast_actions db);
          oldest_used_at = Min (used_at ` set in_window)
      in map_option (\<lambda>t. max 1 (int_total_seconds (t + window_seconds * 1000000 - now)))
           (parse_iso_utc c oldest_used_at))"

text \<open>
  The rows of \<open>broadcast_actions\<close> are written by one statement of the program, the
  \<open>INSERT\<close> of the quota check, which stores \<open>now.isoformat()\<close>. \<open>isoformat_parses\<close> says
  that the parser reads such a text back to the instant it renders, and \<open>actions_parse\<close>
  that every \<open>used_at\<close> in the table parses, as every text written that way does.
\<close>

definition isoformat_parses :: "codec \<Rightarrow> bool" where
  "isoformat_parses c \<longleftrightarrow>
     (\<forall>t. valid_datetime t \<longrightarrow> parse_iso_utc c (isoformat c t) = Some t)"

definition actions_parse :: "codec \<Rightarrow> ledger \<Rightarrow> bool" where
  "actions_parse c db \<longleftrightarrow> (\<forall>r\<in>set (broadcast_actions db). parse_iso_utc c (used_at r) \<noteq> None)"

text \<open>
  For the proof: the \<open>used_at\<close> texts of a user's rows as a multiset, and the invariant
  of a run: every allowed call so far happened at a representable instant no later than
  the last clock reading, and each of them that is at most two days old still has its
  own row.
\<close>

definition user_texts :: "ledger \<Rightarrow> int \<Rightarrow> string multiset" where
  "user_texts db uid =
     mset (map used_at (filter (\<lambda>r. action_user_id r = uid) (broadcast_actions db)))"

definition quota_inv :: "codec \<Rightarrow> int \<Rightarrow> int list \<Rightarrow> ledger \<Rightarrow> int \<Rightarrow> bool" where
  "quota_inv c uid A db t_last \<longleftrightarrow>
     (\<forall>a\<in>set A. valid_datetime a \<and> a \<le> t_last) \<and>
     mset (map (isoformat c) (filter (\<lambda>a. t_last - timedelta_days 2 \<le> a) A)) \<subseteq># user_texts db uid"

section \<open>The reaction listeners of \<open>cogs/reputation.py\<close>\<close>

text \<open>
  A raw reaction event carries the reacting user, the message and the emoji. The emoji
  strings are the UTF-8 bytes of the thumbs-up and thumbs-down code points. A listener
  has no suspension point, so it runs from its first statement to its return without
  another listener in between. The clock readings a listener makes are its \<open>clock\<close>:
  one in \<open>within_rep_window\<close>, one in \<open>adjust_rep\<close>, two in \<open>prune_rep\<close>.
\<close>

record payload =
  payload_user_id :: int
  payload_message_id :: int
  payload_emoji :: string

record clock =
  at_window :: int
  at_adjust :: int
  at_prune :: int
  at_marker :: int

definition THUMBS_UP :: string where
  "THUMBS_UP = [CHR 0xF0, CHR 0x9F, CHR 0x91, CHR 0x8D]"

definition THUMBS_DOWN :: string where
  "THUMBS_DOWN = [CHR 0xF0, CHR 0x9F, CHR 0x91, CHR 0x8E]"

definition on_raw_reaction_add ::
  "codec \<Rightarrow> int option \<Rightarrow> clock \<Rightarrow> payload \<Rightarrow> ledger \<Rightarrow> ledger" where
  "on_raw_reaction_add c bot_user k p db =
     (if bot_user = Some (payload_user_id p) then db
      else if payload_emoji p \<notin> {THUMBS_UP, THUMBS_DOWN} then db
      else case get_rep_message db (payload_message_id p) of
        None \<Rightarrow> db
      | Some msg \<Rightarrow>
          if \<not> within_rep_window c (at_window k) (created_at msg)
          then prune_rep c (at_prune k) (at_marker k)
                 (delete_rep_message db (payload_message_id p))
          else if payload_user_id p = author_id msg then db
          else
            let new_vote = (if payload_emoji p = THUMBS_UP then 1 else - 1);
                old_vote = get_vote db (payload_message_id p) (payload_user_id p)
            in if old_vote = Some new_vote then db
               else
                 let delta = new_vote - (case old_vote of None \<Rightarrow> 0 | Some v \<Rightarrow> v);
                     db1 = set_vote db (payload_message_id p) (payload_user_id p) new_vote;
                     db2 = adjust_rep c (at_adjust k) db1 (author_id msg) delta
                 in prune_rep c (at_prune k) (at_marker k) db2)"

definition on_raw_reaction_remove :: "codec \<Rightarrow> clock \<Rightarrow> payload \<Rightarrow> ledger \<Rightarrow> ledger" where
  "on_raw_reaction_remove c k p db =
     (if payload_emoji p \<notin> {THUMBS_UP, THUMBS_DOWN} then db
      else case get_rep_message db (payload_message_id p) of
        None \<Rightarrow> db
      | Some msg \<Rightarrow>
          if \<not> within_rep_window c (at_window k) (created_at msg)
          then prune_rep c (at_prune k) (at_marker k)
                 (delete_rep_message db (payload_message_id p))
          else
            let removed_vote = (if payload_emoji p = THUMBS_UP then 1 else - 1);
                old_vote = get_vote db (payload_message_id p) (payload_user_id p)
            in if old_vote \<noteq> Some removed_vote then db
               else
                 let db1 = delete_vote db (payload_message_id p) (payload_user_id p);
                     db2 = adjust_rep c (at_adjust k) db1 (author_id msg) (- removed_vote)
                 in prune_rep c (at_prune k) (at_marker k) db2)"

section \<open>The quota table of \<open>cogs/broadcasts.py\<close>\<close>

definition limits_for_rep :: "int \<Rightarrow> int \<times> int" where
  "limits_for_rep r =
     (if r \<le> - 30 then (1, 4 * 60 * 60)
      else if r \<le> - 2 then (1, 60 * 60)
      else if r \<le> 9 then (5, 60 * 60)
      else if r \<le> 25 then (15, 60 * 60)
      else (30, 60 * 60))"

section \<open>A stand-in codec for concrete runs\<close>

text \<open>
  Concrete runs need concrete texts. \<open>demo_codec\<close> renders an instant as the 18 decimal
  digits of its distance from the first instant of year 1, which has the two properties
  of \<open>isoformat\<close> on UTC datetimes that the ledger relies on: the text parses back to the
  instant, and texts compare as their instants do.
\<close>

fun digits :: "nat \<Rightarrow> nat \<Rightarrow> string" where
  "digits 0 n = []"
| "digits (Suc k) n = char_of (48 + (n div 10 ^ k) mod 10) # digits k n"

fun undigits :: "string \<Rightarrow> nat option" where
  "undigits [] = Some 0"
| "undigits (ch # s) =
     (if 48 \<le> (of_char ch :: nat) \<and> (of_char ch :: nat) \<le> 57
      then (case undigits s of None \<Rightarrow> None
            | Some v \<Rightarrow> Some ((of_char ch - 48) * 10 ^ length s + v))
      else None)"

definition demo_isoformat :: "int \<Rightarrow> string" where
  "demo_isoformat t = digits 18 (nat (t - MIN_DATETIME))"

definition demo_fromisoformat :: "string \<Rightarrow> int option" where
  "demo_fromisoformat s =
     (if length s = 18 then map_option (\<lambda>v. int v + MIN_DATETIME) (undigits s) else None)"

definition demo_codec :: codec where
  "demo_codec = \<lparr>isoformat = demo_isoformat,
                 isoformat_seconds = (\<lambda>t. demo_isoformat (t - t mod 1000000)),
                 fromisoformat = demo_fromisoformat\<rparr>"

section \<open>Concrete ledgers for the runs\<close>

text \<open>
  One tracked message, number 1, written by user 7 at \<open>T0\<close> (14 November 2023, in
  microseconds since the epoch). In \<open>demo_ledger\<close> the author has an account with
  reputation 3. In \<open>demo_ledger_no_account\<close> the author has none: \<open>_broadcast_alert\<close>
  calls \<open>ensure_rep_user\<close> inside a \<open>try\<close> whose handler only prints, and goes on to send
  and to call \<open>track_rep_message\<close>, so when \<open>ensure_rep_user\<close> raises, having written
  nothing, the message is tracked on a ledger without the author's account.
  \<open>demo_ledger_untracked\<close> is that ledger before the message is tracked.
  \<open>demo_clock t\<close> is a listener whose clock readings are all \<open>t\<close>.
\<close>

definition T0 :: int where
  "T0 = 1700000000000000"

definition demo_message :: rep_message_row where
  "demo_message = \<lparr>message_id = 1, author_id = 7, author_name = ''author'',
                    created_at = demo_isoformat T0\<rparr>"

definition demo_ledger :: ledger where
  "demo_ledger =
     \<lparr>rep_users = [\<lparr>user_id = 7, rep = 3, user_name = ''author'',
                    last_updated = demo_isoformat T0\<rparr>],
      rep_messages = [demo_message],
      rep_votes = [],
      broadcast_actions = [],
      maintenance = [\<lparr>maintenance_id = 1, last_prune_at = None\<rparr>]\<rparr>"

definition demo_ledger_no_account :: ledger where
  "demo_ledger_no_account = demo_ledger\<lparr>rep_users := []\<rparr>"


definition demo_clock :: "int \<Rightarrow> clock" where
  "demo_clock t = \<lparr>at_window = t, at_adjust = t, at_prune = t, at_marker = t\<rparr>"

definition reaction :: "int \<Rightarrow> string \<Rightarrow> payload" where
  "reaction u e = \<lparr>payload_user_id = u, payload_message_id = 1, payload_emoji = e\<rparr>"

text \<open>
  \<open>demo_voted\<close> is the ledger after user 8 has added a thumbs-up to message 1, ten seconds
  after it was tracked; \<open>demo_voted_no_account\<close> is the same on the ledger without the
  author's account. \<open>demo_account_later\<close> is \<open>demo_voted_no_account\<close> after the author's
  next broadcast, five seconds later, whose \<open>ensure_rep_user\<close> succeeds.
\<close>

definition demo_voted :: ledger where
  "demo_voted = on_raw_reaction_add demo_codec (Some 99) (demo_clock (T0 + 10000000))
                  (reaction 8 THUMBS_UP) demo_ledger"



text \<open>\<open>T_STALE\<close> is one second past the TTL of message 1.\<close>

definition T_STALE :: int where
  "T_STALE = T0 + 14401000000"

text \<open>
  Two quota tables. In \<open>quota_ledger_garbled\<close> the only row, of user 8, carries a text
  that is no timestamp. \<open>quota_ledger_reached\<close> is what six allowed calls leave, starting
  from \<open>demo_ledger\<close>, where users 8 and 9 have no account and so the score 0, whose
  limits are five actions an hour: one call of user 9, two days and five seconds before
  \<open>T0\<close>, then the five calls \<open>quota_calls_8\<close> of user 8 in the last minute before \<open>T0\<close>.
  \<open>quota_rows_reached\<close> are the rows these calls write.
\<close>

definition quota_ledger_garbled :: ledger where
  "quota_ledger_garbled =
     demo_ledger\<lparr>broadcast_actions := [\<lparr>action_user_id = 8, used_at = ''garbled''\<rparr>]\<rparr>"

definition quota_calls_8 :: "int list" where
  "quota_calls_8 = [T0 - 50000000, T0 - 40000000, T0 - 30000000, T0 - 20000000, T0 - 10000000]"

definition quota_ledger_reached :: ledger where
  "quota_ledger_reached =
     snd (run_quota demo_codec 8 5 3600 quota_calls_8
       (snd (check_and_consume_broadcast_quota demo_codec (T0 - 172805000000) demo_ledger 9 5 3600)))"

definition quota_rows_reached :: "broadcast_action_row list" where
  "quota_rows_reached =
     [\<lparr>action_user_id = 9, used_at = demo_isoformat (T0 - 172805000000)\<rparr>,
      \<lparr>action_user_id = 8, used_at = demo_isoformat (T0 - 50000000)\<rparr>,
      \<lparr>action_user_id = 8, used_at = demo_isoformat (T0 - 40000000)\<rparr>,
      \<lparr>action_user_id = 8, used_at = demo_isoformat (T0 - 30000000)\<rparr>,
      \<lparr>action_user_id = 8, used_at = demo_isoformat (T0 - 20000000)\<rparr>,
      \<lparr>action_user_id = 8, used_at = demo_isoformat (T0 - 10000000)\<rparr>]"

section \<open>Helper facts\<close>

subsection \<open>Tables and their operations\<close>

lemmas tx_defs = connect_def execute_def commit_def close_def

lemma find_user_map:
  "find (\<lambda>r. user_id r = u) (map (\<lambda>x. if user_id x = uid then x\<lparr>rep := v, last_updated := s\<rparr> else x) xs) =
     map_option (\<lambda>x. if user_id x = uid then x\<lparr>rep := v, last_updated := s\<rparr> else x) (find (\<lambda>r. user_id r = u) xs)"
  by (induction xs) auto

lemma find_SomeD: "find P xs = Some x \<Longrightarrow> P x \<and> x \<in> set xs"
  by (auto simp: find_Some_iff)

lemma get_rep_adjust_rep:
  "get_rep (adjust_rep c now db uid d) u =
     (if u = uid \<and> find (\<lambda>r. user_id r = uid) (rep_users db) \<noteq> None
      then get_rep db uid + d else get_rep db u)"
proof (cases "find (\<lambda>r. user_id r = uid) (rep_users db)")
  case None
  then show ?thesis by (simp add: adjust_rep_def tx_defs)
next
  case (Some r)
  then have r: "user_id r = uid" by (auto dest: find_SomeD)
  show ?thesis
  proof (cases "find (\<lambda>r. user_id r = u) (rep_users db)")
    case None
    with Some r show ?thesis
      by (auto simp: get_rep_def adjust_rep_def tx_defs find_user_map)
  next
    case (Some x)
    then have "user_id x = u" by (auto dest: find_SomeD)
    with Some \<open>find (\<lambda>r. user_id r = uid) (rep_users db) = Some r\<close> r show ?thesis
      by (auto simp: get_rep_def adjust_rep_def tx_defs find_user_map)
  qed
qed

lemma rep_users_prune_rep [simp]: "rep_users (prune_rep c n m db) = rep_users db"
  by (simp add: prune_rep_def tx_defs Let_def)

lemma get_rep_prune_rep [simp]: "get_rep (prune_rep c n m db) u = get_rep db u"
  by (simp add: get_rep_def)

lemma get_rep_set_vote [simp]: "get_rep (set_vote db mid vid v) u = get_rep db u"
  by (simp add: get_rep_def set_vote_def tx_defs)

lemma get_rep_delete_vote [simp]: "get_rep (delete_vote db mid vid) u = get_rep db u"
  by (simp add: get_rep_def delete_vote_def tx_defs)

lemma get_rep_delete_rep_message [simp]: "get_rep (delete_rep_message db mid) u = get_rep db u"
  by (simp add: get_rep_def delete_rep_message_def tx_defs)

lemma find_filter_keep: "(\<And>x. x \<in> set xs \<Longrightarrow> P x \<Longrightarrow> Q x) \<Longrightarrow> find P (filter Q xs) = find P xs"
  by (induction xs) auto

lemma find_filter_drop: "(\<And>x. x \<in> set xs \<Longrightarrow> P x \<Longrightarrow> \<not> Q x) \<Longrightarrow> find P (filter Q xs) = None"
  by (induction xs) auto

lemma find_append_new: "P y \<Longrightarrow> (\<And>x. Q x \<Longrightarrow> \<not> P x) \<Longrightarrow> find P (filter Q xs @ [y]) = Some y"
  by (induction xs) auto


lemma get_rep_message_ensure_rep_user [simp]:
  "get_rep_message (ensure_rep_user c n db u name) m = get_rep_message db m"
  by (simp add: get_rep_message_def ensure_rep_user_def tx_defs Let_def split: option.splits)

lemma get_vote_ensure_rep_user [simp]:
  "get_vote (ensure_rep_user c n db u name) m v = get_vote db m v"
  by (simp add: get_vote_def ensure_rep_user_def tx_defs Let_def split: option.splits)

lemma get_vote_set_vote_same: "get_vote (set_vote db mid vid v) mid vid = Some v"
proof -
  have "find (\<lambda>r. vote_message_id r = mid \<and> voter_id r = vid)
          (filter (\<lambda>r. \<not> (vote_message_id r = mid \<and> voter_id r = vid)) (rep_votes db) @
           [\<lparr>vote_message_id = mid, voter_id = vid, vote = v\<rparr>]) =
        Some \<lparr>vote_message_id = mid, voter_id = vid, vote = v\<rparr>"
    by (rule find_append_new) auto
  then show ?thesis
    by (simp add: get_vote_def set_vote_def tx_defs del: de_Morgan_conj)
qed

lemma rep_votes_prune_rep:
  "rep_votes (prune_rep c n m db) = filter (\<lambda>r. vote_message_id r \<notin> set (expired_ids c n (rep_messages db))) (rep_votes db)"
  by (cases "expired_ids c n (rep_messages db) = []") (simp_all add: prune_rep_def tx_defs Let_def)

lemma rep_messages_prune_rep:
  "rep_messages (prune_rep c n m db) = filter (\<lambda>r. message_id r \<notin> set (expired_ids c n (rep_messages db))) (rep_messages db)"
  by (cases "expired_ids c n (rep_messages db) = []") (simp_all add: prune_rep_def tx_defs Let_def)

lemma get_vote_prune_rep:
  "get_vote (prune_rep c n m db) mid vid =
     (if mid \<in> set (expired_ids c n (rep_messages db)) then None else get_vote db mid vid)"
proof (cases "mid \<in> set (expired_ids c n (rep_messages db))")
  case True
  then have "find (\<lambda>r. vote_message_id r = mid \<and> voter_id r = vid)
      (filter (\<lambda>r. vote_message_id r \<notin> set (expired_ids c n (rep_messages db))) (rep_votes db)) = None"
    by (intro find_filter_drop) auto
  with True show ?thesis by (simp add: get_vote_def rep_votes_prune_rep)
next
  case False
  then have "find (\<lambda>r. vote_message_id r = mid \<and> voter_id r = vid)
      (filter (\<lambda>r. vote_message_id r \<notin> set (expired_ids c n (rep_messages db))) (rep_votes db)) =
      find (\<lambda>r. vote_message_id r = mid \<and> voter_id r = vid) (rep_votes db)"
    by (intro find_filter_keep) auto
  with False show ?thesis by (simp add: get_vote_def rep_votes_prune_rep)
qed

lemma get_rep_message_prune_rep:
  "get_rep_message (prune_rep c n m db) mid =
     (if mid \<in> set (expired_ids c n (rep_messages db)) then None else get_rep_message db mid)"
proof (cases "mid \<in> set (expired_ids c n (rep_messages db))")
  case True
  then have "find (\<lambda>r. message_id r = mid)
      (filter (\<lambda>r. message_id r \<notin> set (expired_ids c n (rep_messages db))) (rep_messages db)) = None"
    by (intro find_filter_drop) auto
  with True show ?thesis by (simp add: get_rep_message_def rep_messages_prune_rep)
next
  case False
  then have "find (\<lambda>r. message_id r = mid)
      (filter (\<lambda>r. message_id r \<notin> set (expired_ids c n (rep_messages db))) (rep_messages db)) =
      find (\<lambda>r. message_id r = mid) (rep_messages db)"
    by (intro find_filter_keep) auto
  with False show ?thesis by (simp add: get_rep_message_def rep_messages_prune_rep)
qed


lemma find_distinct_key:
  "distinct (map k xs) \<Longrightarrow> find (\<lambda>r. k r = a) xs = Some x \<Longrightarrow> y \<in> set xs \<Longrightarrow> k y = a \<Longrightarrow> y = x"
proof (induction xs)
  case Nil
  then show ?case by simp
next
  case (Cons z zs)
  show ?case
  proof (cases "k z = a")
    case True
    with Cons.prems have "x = z" by simp
    moreover from Cons.prems True have "y = z" by (auto simp: image_iff)
    ultimately show ?thesis by simp
  next
    case False
    with Cons show ?thesis by auto
  qed
qed

lemma expired_iff:
  assumes "distinct (map message_id rows)" "find (\<lambda>r. message_id r = mid) rows = Some msg"
  shows "mid \<in> set (expired_ids c n rows) \<longleftrightarrow>
     (case parse_iso_utc c (created_at msg) of None \<Rightarrow> False | Some t \<Rightarrow> n - t > REP_TTL_SECONDS * 1000000)"
    (is "?L \<longleftrightarrow> ?E msg")
proof
  from assms(2) have in_set: "msg \<in> set rows" and k: "message_id msg = mid"
    using find_SomeD by fastforce+
  {
    assume ?L
    then obtain y where y: "y \<in> set rows" "?E y" "message_id y = mid"
      unfolding expired_ids_def by fastforce
    from find_distinct_key [OF assms(1) assms(2) y(1) y(3)] y(2) show "?E msg" by simp
  }
  {
    assume "?E msg"
    with in_set k show ?L
      unfolding expired_ids_def by force
  }
qed

lemma expired_iff_within:
  assumes "distinct (map message_id rows)" "find (\<lambda>r. message_id r = mid) rows = Some msg"
    and "within_rep_window c n0 (created_at msg)"
  shows "mid \<in> set (expired_ids c n rows) \<longleftrightarrow> \<not> within_rep_window c n (created_at msg)"
  using assms(3) unfolding expired_iff [OF assms(1,2)]
  by (auto simp: within_rep_window_def split: option.splits)

lemma within_rep_window_earlier:
  "within_rep_window c n s \<Longrightarrow> n' \<le> n \<Longrightarrow> within_rep_window c n' s"
  by (auto simp: within_rep_window_def split: option.splits)

lemma rep_messages_set_vote [simp]: "rep_messages (set_vote db mid vid v) = rep_messages db"
  by (simp add: set_vote_def tx_defs)

lemma rep_messages_delete_vote [simp]: "rep_messages (delete_vote db mid vid) = rep_messages db"
  by (simp add: delete_vote_def tx_defs)

lemma rep_messages_adjust_rep [simp]: "rep_messages (adjust_rep c n db u d) = rep_messages db"
  by (simp add: adjust_rep_def tx_defs Let_def split: option.splits)

lemma rep_votes_adjust_rep [simp]: "rep_votes (adjust_rep c n db u d) = rep_votes db"
  by (simp add: adjust_rep_def tx_defs Let_def split: option.splits)

lemma get_vote_adjust_rep [simp]: "get_vote (adjust_rep c n db u d) mid vid = get_vote db mid vid"
  by (simp add: get_vote_def)

lemma has_account_adjust_rep [simp]: "has_account (adjust_rep c n db u d) a = has_account db a"
proof (cases "find (\<lambda>r. user_id r = u) (rep_users db)")
  case None
  then show ?thesis by (simp add: has_account_def adjust_rep_def tx_defs Let_def)
next
  case (Some r)
  then show ?thesis
    by (simp add: has_account_def adjust_rep_def tx_defs Let_def find_user_map)
qed

lemma has_account_prune_rep [simp]: "has_account (prune_rep c n m db) a = has_account db a"
  by (simp add: has_account_def)

lemma has_account_set_vote [simp]: "has_account (set_vote db mid vid v) a = has_account db a"
  by (simp add: has_account_def set_vote_def tx_defs)

lemma has_account_delete_vote [simp]: "has_account (delete_vote db mid vid) a = has_account db a"
  by (simp add: has_account_def delete_vote_def tx_defs)

lemma get_rep_adjust_rep':
  "get_rep (adjust_rep c now db uid d) u =
     (if u = uid \<and> has_account db uid then get_rep db uid + d else get_rep db u)"
  by (simp add: get_rep_adjust_rep has_account_def)



lemma distinct_prune_rep:
  "distinct (map message_id (rep_messages db)) \<Longrightarrow>
   distinct (map message_id (rep_messages (prune_rep c n m db)))"
  by (simp add: rep_messages_prune_rep distinct_map_filter)

text \<open>The state a vote-casting listener leaves when it gets past every guard.\<close>

lemma add_past_guards:
  assumes "get_rep_message db (payload_message_id p) = Some msg"
    and "within_rep_window c (at_window k) (created_at msg)"
    and "payload_user_id p \<noteq> author_id msg"
    and "bot_user \<noteq> Some (payload_user_id p)"
    and "payload_emoji p \<in> {THUMBS_UP, THUMBS_DOWN}"
    and "v = (if payload_emoji p = THUMBS_UP then 1 else - 1)"
  shows "on_raw_reaction_add c bot_user k p db =
     (if get_vote db (payload_message_id p) (payload_user_id p) = Some v then db
      else prune_rep c (at_prune k) (at_marker k)
             (adjust_rep c (at_adjust k)
                (set_vote db (payload_message_id p) (payload_user_id p) v) (author_id msg)
                (v - (case get_vote db (payload_message_id p) (payload_user_id p) of
                        None \<Rightarrow> 0 | Some w \<Rightarrow> w))))"
  using assms(1-5) unfolding assms(6) on_raw_reaction_add_def Let_def
  by (simp split: option.splits)


subsection \<open>The stand-in codec\<close>

lemma length_digits [simp]: "length (digits k n) = k"
  by (induction k) auto

lemma undigits_digits: "undigits (digits k n) = Some (n mod 10 ^ k)"
proof (induction k)
  case 0
  then show ?case by simp
next
  case (Suc k)
  have d: "(n div 10 ^ k) mod 10 < 10" by simp
  have c: "of_char (char_of (48 + (n div 10 ^ k) mod 10)) = (48 + (n div 10 ^ k) mod 10 :: nat)"
    using d by (simp add: of_char_of)
  have "n mod (10 ^ k * 10) = 10 ^ k * (n div 10 ^ k mod 10) + n mod 10 ^ k"
    by (rule mod_mult2_eq)
  with Suc c show ?case by (simp add: mult.commute)
qed

lemma char_of_digit_less:
  "x < 10 \<Longrightarrow> y < 10 \<Longrightarrow> (char_of (48 + x :: nat) < char_of (48 + y)) = (x < y)"
  by (simp add: less_char_def of_char_of)

lemma char_of_digit_eq:
  "x < 10 \<Longrightarrow> y < 10 \<Longrightarrow> (char_of (48 + x :: nat) = char_of (48 + y)) = (x = y)"
  by (metis char_of_digit_less less_irrefl linorder_neqE_nat)

lemma digits_mono: "a mod 10 ^ k \<le> b mod 10 ^ k \<Longrightarrow> digits k a \<le> digits k b"
proof (induction k)
  case 0
  then show ?case by simp
next
  case (Suc k)
  define da ra where "da = a div 10 ^ k mod 10" and "ra = a mod 10 ^ k"
  define db rb where "db = b div 10 ^ k mod 10" and "rb = b mod 10 ^ k"
  have A: "a mod 10 ^ Suc k = 10 ^ k * da + ra" and B: "b mod 10 ^ Suc k = 10 ^ k * db + rb"
    unfolding da_def ra_def db_def rb_def
    using mod_mult2_eq [of a "10 ^ k" 10] mod_mult2_eq [of b "10 ^ k" 10]
    by (simp_all add: mult.commute)
  have ra: "ra < 10 ^ k" and rb: "rb < 10 ^ k" and da: "da < 10" and db: "db < 10"
    by (simp_all add: da_def ra_def db_def rb_def)
  from Suc.prems have le: "10 ^ k * da + ra \<le> 10 ^ k * db + rb" by (simp only: A B)
  have not_gt: "\<not> db < da"
  proof
    assume "db < da"
    then have "Suc db \<le> da" by simp
    then have "10 ^ k * Suc db \<le> (10 ^ k * da :: nat)" by (rule mult_le_mono2)
    with le rb show False by simp
  qed
  show ?case
  proof (cases "da < db")
    case True
    then have "char_of (48 + da) < char_of (48 + db)"
      using da db by (simp add: char_of_digit_less)
    then show ?thesis by (simp add: da_def ra_def db_def rb_def)
  next
    case False
    with not_gt have eq: "da = db" by simp
    with le have "ra \<le> rb" by simp
    then have "digits k a \<le> digits k b" using Suc.IH by (simp add: da_def ra_def db_def rb_def)
    with eq show ?thesis by (simp add: da_def ra_def db_def rb_def)
  qed
qed

lemma demo_offset_bound:
  assumes "valid_datetime t"
  shows "nat (t - MIN_DATETIME) < 10 ^ 18"
proof -
  from assms have "MIN_DATETIME \<le> t" and "t - MIN_DATETIME < 10 ^ 18"
    by (simp_all add: valid_datetime_def MIN_DATETIME_def MAX_DATETIME_def)
  then show ?thesis by (simp add: nat_less_iff)
qed

lemma demo_isoformat_mono:
  assumes "valid_datetime a" "valid_datetime b" "a \<le> b"
  shows "demo_isoformat a \<le> demo_isoformat b"
proof -
  have "nat (a - MIN_DATETIME) \<le> nat (b - MIN_DATETIME)"
    using assms(3) by simp
  then have "nat (a - MIN_DATETIME) mod 10 ^ 18 \<le> nat (b - MIN_DATETIME) mod 10 ^ 18"
    using demo_offset_bound [OF assms(1)] demo_offset_bound [OF assms(2)]
    by (simp only: mod_less)
  then show ?thesis
    unfolding demo_isoformat_def by (rule digits_mono)
qed

lemma demo_roundtrip:
  assumes "valid_datetime t"
  shows "demo_fromisoformat (demo_isoformat t) = Some t"
proof -
  from assms have "MIN_DATETIME \<le> t" by (simp add: valid_datetime_def)
  then have "int (nat (t - MIN_DATETIME)) + MIN_DATETIME = t" by simp
  then show ?thesis
    using demo_offset_bound [OF assms]
    by (simp add: demo_fromisoformat_def demo_isoformat_def undigits_digits)
qed

lemma demo_isoformat_nonempty: "demo_isoformat t \<noteq> []"
proof
  assume "demo_isoformat t = []"
  then have "length (digits 18 (nat (t - MIN_DATETIME))) = 0"
    by (simp add: demo_isoformat_def)
  then show False by (simp only: length_digits)
qed


subsection \<open>What one listener call does\<close>

lemma get_rep_message_set_vote [simp]:
  "get_rep_message (set_vote db mid vid v) m = get_rep_message db m"
  by (simp add: get_rep_message_def)

lemma get_rep_message_delete_vote [simp]:
  "get_rep_message (delete_vote db mid vid) m = get_rep_message db m"
  by (simp add: get_rep_message_def)

lemma get_rep_message_adjust_rep [simp]:
  "get_rep_message (adjust_rep c n db u d) m = get_rep_message db m"
  by (simp add: get_rep_message_def)

lemma add_effect:
  assumes pk: "distinct (map message_id (rep_messages db))"
    and tracked: "get_rep_message db (payload_message_id p) = Some msg"
    and unexpired: "within_rep_window c (at_window k) (created_at msg)"
    and other: "payload_user_id p \<noteq> author_id msg"
    and notbot: "bot_user \<noteq> Some (payload_user_id p)"
    and emoji: "payload_emoji p \<in> {THUMBS_UP, THUMBS_DOWN}"
    and v: "v = (if payload_emoji p = THUMBS_UP then 1 else - 1)"
    and db': "db' = on_raw_reaction_add c bot_user k p db"
    and prior: "prior = get_vote db (payload_message_id p) (payload_user_id p)"
  shows "prior = Some v \<Longrightarrow> db' = db"
    and "prior \<noteq> Some v \<Longrightarrow> get_rep db' (author_id msg) = get_rep db (author_id msg) +
           (if has_account db (author_id msg)
            then v - (case prior of None \<Rightarrow> 0 | Some w \<Rightarrow> w) else 0)"
    and "prior \<noteq> Some v \<Longrightarrow> get_vote db' (payload_message_id p) (payload_user_id p) =
           (if within_rep_window c (at_prune k) (created_at msg) then Some v else None)"
    and "within_rep_window c (at_prune k) (created_at msg) \<Longrightarrow>
           get_rep_message db' (payload_message_id p) = Some msg \<and>
           get_vote db' (payload_message_id p) (payload_user_id p) = Some v"
    and "distinct (map message_id (rep_messages db'))"
    and "has_account db' a = has_account db a"
proof -
  note unfolded = add_past_guards [OF tracked unexpired other notbot emoji v, folded prior db']
  have f: "find (\<lambda>r. message_id r = payload_message_id p) (rep_messages db) = Some msg"
    using tracked by (simp add: get_rep_message_def)
  note ex = expired_iff_within [OF pk f unexpired]
  show "prior = Some v \<Longrightarrow> db' = db"
    using unfolded by simp
  show "prior \<noteq> Some v \<Longrightarrow> get_rep db' (author_id msg) = get_rep db (author_id msg) +
           (if has_account db (author_id msg)
            then v - (case prior of None \<Rightarrow> 0 | Some w \<Rightarrow> w) else 0)"
    using unfolded by (simp add: get_rep_adjust_rep')
  show "prior \<noteq> Some v \<Longrightarrow> get_vote db' (payload_message_id p) (payload_user_id p) =
           (if within_rep_window c (at_prune k) (created_at msg) then Some v else None)"
    using unfolded by (simp add: get_vote_prune_rep ex get_vote_set_vote_same)
  show "within_rep_window c (at_prune k) (created_at msg) \<Longrightarrow>
           get_rep_message db' (payload_message_id p) = Some msg \<and>
           get_vote db' (payload_message_id p) (payload_user_id p) = Some v"
    using unfolded tracked prior
    by (cases "prior = Some v")
       (simp_all add: get_vote_prune_rep get_rep_message_prune_rep ex get_vote_set_vote_same)
  show "distinct (map message_id (rep_messages db'))"
    using unfolded pk by (cases "prior = Some v") (simp_all add: rep_messages_prune_rep distinct_map_filter)
  show "has_account db' a = has_account db a"
    using unfolded by (cases "prior = Some v") simp_all
qed




lemma rep_users_delete_rep_message [simp]:
  "rep_users (delete_rep_message db mid) = rep_users db"
  by (simp add: delete_rep_message_def tx_defs)

lemma rep_users_set_vote [simp]: "rep_users (set_vote db mid vid v) = rep_users db"
  by (simp add: set_vote_def tx_defs)

lemma get_rep_message_delete_rep_message:
  "get_rep_message (delete_rep_message db mid) mid = None"
proof -
  have "find (\<lambda>r. message_id r = mid) (filter (\<lambda>r. message_id r \<noteq> mid) (rep_messages db)) = None"
    by (rule find_filter_drop) simp
  then show ?thesis by (simp add: get_rep_message_def delete_rep_message_def tx_defs)
qed

lemma message_votes_delete_rep_message:
  "message_votes (delete_rep_message db mid) mid = []"
  by (simp add: message_votes_def delete_rep_message_def tx_defs)

lemma rep_votes_delete_rep_message:
  "set (rep_votes (delete_rep_message db mid)) \<subseteq> set (rep_votes db)"
  by (auto simp: delete_rep_message_def tx_defs)

lemma get_rep_message_None_prune_rep:
  "get_rep_message db mid = None \<Longrightarrow> get_rep_message (prune_rep c n m db) mid = None"
  by (simp add: get_rep_message_prune_rep)

lemma message_votes_prune_rep:
  "message_votes db mid = [] \<Longrightarrow> message_votes (prune_rep c n m db) mid = []"
  by (auto simp: message_votes_def rep_votes_prune_rep filter_empty_conv)

lemma rep_votes_prune_rep_subset:
  "set (rep_votes (prune_rep c n m db)) \<subseteq> set (rep_votes db)"
  by (auto simp: rep_votes_prune_rep)

lemma stale_not_within:
  "parse_iso_utc c s = Some t \<Longrightarrow> now - t > REP_TTL_SECONDS * 1000000 \<Longrightarrow>
     \<not> within_rep_window c now s"
  by (simp add: within_rep_window_def)

lemma add_on_stale:
  assumes "get_rep_message db (payload_message_id p) = Some msg"
    and "\<not> within_rep_window c (at_window k) (created_at msg)"
  shows "on_raw_reaction_add c bot_user k p db =
     (if bot_user = Some (payload_user_id p) \<or> payload_emoji p \<notin> {THUMBS_UP, THUMBS_DOWN} then db
      else prune_rep c (at_prune k) (at_marker k) (delete_rep_message db (payload_message_id p)))"
  using assms unfolding on_raw_reaction_add_def by simp

lemma remove_on_stale:
  assumes "get_rep_message db (payload_message_id p) = Some msg"
    and "\<not> within_rep_window c (at_window k) (created_at msg)"
  shows "on_raw_reaction_remove c k p db =
     (if payload_emoji p \<notin> {THUMBS_UP, THUMBS_DOWN} then db
      else prune_rep c (at_prune k) (at_marker k) (delete_rep_message db (payload_message_id p)))"
  using assms unfolding on_raw_reaction_remove_def by simp

subsection \<open>The concrete ledgers\<close>

lemma thumbs_distinct [simp]: "THUMBS_UP \<noteq> THUMBS_DOWN" "THUMBS_DOWN \<noteq> THUMBS_UP"
  by (simp_all add: THUMBS_UP_def THUMBS_DOWN_def)

lemma valid_T0 [simp]: "valid_datetime T0"
  by (simp add: valid_datetime_def T0_def MIN_DATETIME_def MAX_DATETIME_def)

lemma demo_parse [simp]:
  "valid_datetime t \<Longrightarrow> parse_iso_utc demo_codec (demo_isoformat t) = Some t"
  by (simp add: parse_iso_utc_def demo_codec_def demo_roundtrip demo_isoformat_nonempty)

lemma demo_within:
  "valid_datetime t \<Longrightarrow>
     within_rep_window demo_codec now (demo_isoformat t) \<longleftrightarrow> now - t \<le> 14400000000"
  by (simp add: within_rep_window_def REP_TTL_SECONDS_def)

lemma demo_ledger_facts:
  "distinct (map message_id (rep_messages demo_ledger))"
  "get_rep_message demo_ledger 1 = Some demo_message"
  "get_vote demo_ledger 1 8 = None"
  "get_rep demo_ledger 7 = 3"
  "has_account demo_ledger 7"
  "author_id demo_message = 7"
  "created_at demo_message = demo_isoformat T0"
  by (simp_all add: demo_ledger_def demo_message_def get_rep_message_def get_vote_def
      get_rep_def has_account_def)

lemma demo_ledger_no_account_facts:
  "distinct (map message_id (rep_messages demo_ledger_no_account))"
  "get_rep_message demo_ledger_no_account 1 = Some demo_message"
  "get_vote demo_ledger_no_account 1 8 = None"
  "get_rep demo_ledger_no_account 7 = 0"
  "\<not> has_account demo_ledger_no_account 7"
  by (simp_all add: demo_ledger_no_account_def demo_ledger_def demo_message_def
      get_rep_message_def get_vote_def get_rep_def has_account_def)

lemma reaction_simps [simp]:
  "payload_user_id (reaction u e) = u"
  "payload_message_id (reaction u e) = 1"
  "payload_emoji (reaction u e) = e"
  "reaction u e\<lparr>payload_emoji := e'\<rparr> = reaction u e'"
  by (simp_all add: reaction_def)

lemma demo_clock_simps [simp]:
  "at_window (demo_clock t) = t" "at_adjust (demo_clock t) = t"
  "at_prune (demo_clock t) = t" "at_marker (demo_clock t) = t"
  by (simp_all add: demo_clock_def)

lemma demo_within_10 [simp]:
  "within_rep_window demo_codec (T0 + 10000000) (demo_isoformat T0)"
  "within_rep_window demo_codec (T0 + 20000000) (demo_isoformat T0)"
  by (simp_all add: demo_within)

lemma demo_voted_facts:
  "get_rep_message demo_voted 1 = Some demo_message"
  "get_vote demo_voted 1 8 = Some 1"
  "get_rep demo_voted 7 = 4"
  "has_account demo_voted 7"
  using add_effect(2,4,6) [OF demo_ledger_facts(1), of "reaction 8 THUMBS_UP" demo_message
        demo_codec "demo_clock (T0 + 10000000)" "Some 99" 1 demo_voted None]
  by (simp_all add: demo_ledger_facts demo_voted_def)





lemma get_vote_Some_message_votes:
  "get_vote db mid vid = Some v \<Longrightarrow> message_votes db mid \<noteq> []"
proof -
  assume "get_vote db mid vid = Some v"
  then obtain r where "find (\<lambda>r. vote_message_id r = mid \<and> voter_id r = vid) (rep_votes db) = Some r"
    by (auto simp: get_vote_def)
  then have "r \<in> set (rep_votes db)" "vote_message_id r = mid"
    using find_SomeD by fastforce+
  then show ?thesis by (auto simp: message_votes_def filter_empty_conv)
qed

lemma T_STALE_stale: "T_STALE - T0 > REP_TTL_SECONDS * 1000000"
  by (simp add: T_STALE_def REP_TTL_SECONDS_def)

subsection \<open>The quota check on the concrete ledgers\<close>

lemma demo_isoformat_inj:
  "valid_datetime a \<Longrightarrow> valid_datetime b \<Longrightarrow> demo_isoformat a = demo_isoformat b \<Longrightarrow> a = b"
  by (metis demo_roundtrip option.inject)

lemma demo_isoformat_less_iff:
  assumes "valid_datetime a" "valid_datetime b"
  shows "demo_isoformat a < demo_isoformat b \<longleftrightarrow> a < b"
proof
  assume "demo_isoformat a < demo_isoformat b"
  show "a < b"
  proof (rule ccontr)
    assume "\<not> a < b"
    then have "b \<le> a" by simp
    from demo_isoformat_mono [OF assms(2) assms(1) this] \<open>demo_isoformat a < demo_isoformat b\<close>
    show False by simp
  qed
next
  assume "a < b"
  then have "demo_isoformat a \<le> demo_isoformat b"
    using demo_isoformat_mono [OF assms] by simp
  moreover have "demo_isoformat a \<noteq> demo_isoformat b"
    using demo_isoformat_inj [OF assms] \<open>a < b\<close> by auto
  ultimately show "demo_isoformat a < demo_isoformat b" by simp
qed

lemma demo_isoformat_le_iff:
  assumes "valid_datetime a" "valid_datetime b"
  shows "demo_isoformat a \<le> demo_isoformat b \<longleftrightarrow> a \<le> b"
  using demo_isoformat_less_iff [OF assms(2) assms(1)] by (simp add: not_less [symmetric])

lemma demo_isoformat_below_letters:
  "demo_isoformat t < CHR ''g'' # s"
proof -
  have "(18::nat) = Suc 17" by simp
  then obtain d rest where d: "demo_isoformat t = char_of (48 + d mod 10 :: nat) # rest"
    unfolding demo_isoformat_def by (metis digits.simps(2))
  have "char_of (48 + d mod 10 :: nat) < CHR ''g''"
    by (simp add: less_char_def of_char_of) 
  then show ?thesis unfolding d by simp
qed

lemma valid_near_T0:
  "- 1000000000000 \<le> d \<Longrightarrow> d \<le> 1000000000000 \<Longrightarrow> valid_datetime (T0 + d)"
  by (simp add: valid_datetime_def T0_def MIN_DATETIME_def MAX_DATETIME_def)

lemma demo_codec_fields [simp]:
  "isoformat demo_codec = demo_isoformat"
  "fromisoformat demo_codec = demo_fromisoformat"
  by (simp_all add: demo_codec_def)

lemma parse_garbled: "parse_iso_utc demo_codec ''garbled'' = None"
  by (simp add: parse_iso_utc_def demo_fromisoformat_def)

lemma valid_before_T0:
  "0 \<le> d \<Longrightarrow> d \<le> 1000000000000 \<Longrightarrow> valid_datetime (T0 - d)"
  by (simp add: valid_datetime_def T0_def MIN_DATETIME_def MAX_DATETIME_def)

lemmas demo_order =
  demo_isoformat_less_iff demo_isoformat_le_iff valid_before_T0 valid_near_T0 valid_T0

lemma quota_steps_at_T0:
  "timedelta_seconds 3600 = Inr 3600000000"
  "datetime_sub T0 3600000000 = Inr (T0 - 3600000000)"
  "datetime_sub T0 (timedelta_days 2) = Inr (T0 - 172800000000)"
  by (simp_all add: timedelta_seconds_def datetime_sub_def datetime_add_def timedelta_days_def
      valid_before_T0)

subsection \<open>The tier curve\<close>

lemma LOG_BASE_gt_1: "1 < LOG_BASE"
  by (simp add: LOG_BASE_def)

lemma LOG_SCALE_pos: "0 < LOG_SCALE"
  using LOG_BASE_gt_1 by (simp add: LOG_SCALE_def)

lemma py_round_le:
  assumes "x \<le> of_int n"
  shows "py_round x \<le> n"
proof -
  from assms have f: "\<lfloor>x\<rfloor> \<le> n" by (simp add: floor_le_iff)
  show ?thesis
  proof (cases "x - of_int \<lfloor>x\<rfloor> < 1 / 2")
    case True
    with f show ?thesis by (simp add: py_round_def)
  next
    case False
    then have "of_int \<lfloor>x\<rfloor> < x" by linarith
    with assms have "of_int \<lfloor>x\<rfloor> < (of_int n :: real)" by linarith
    then have "\<lfloor>x\<rfloor> + 1 \<le> n" by simp
    with f show ?thesis by (simp add: py_round_def)
  qed
qed

lemma py_round_0 [simp]: "py_round 0 = 0"
  by (simp add: py_round_def)

lemma rep_level_range: "0 \<le> rep_level s \<and> rep_level s \<le> 5"
  by (simp add: rep_level_def TIER_NAMES_def)

lemma rep_level_mono: "a \<le> b \<Longrightarrow> rep_level a \<le> rep_level b"
proof (cases "a \<le> 0")
  case True
  then show ?thesis using rep_level_range [of b] by (simp add: rep_level_def)
next
  case False
  assume "a \<le> b"
  with False have pos: "0 < a" "0 < b" by simp_all
  have "of_int a / LOG_SCALE + 1 \<le> of_int b / LOG_SCALE + 1"
    using \<open>a \<le> b\<close> LOG_SCALE_pos by (simp add: divide_right_mono)
  moreover have "0 < of_int a / LOG_SCALE + 1"
    using pos LOG_SCALE_pos by (simp add: add_pos_pos)
  ultimately have "log LOG_BASE (of_int a / LOG_SCALE + 1) \<le> log LOG_BASE (of_int b / LOG_SCALE + 1)"
    using LOG_BASE_gt_1 by (intro log_mono)
  then have "\<lfloor>log LOG_BASE (of_int a / LOG_SCALE + 1)\<rfloor> \<le> \<lfloor>log LOG_BASE (of_int b / LOG_SCALE + 1)\<rfloor>"
    by (rule floor_mono)
  with pos show ?thesis by (simp add: rep_level_def)
qed

lemma rep_threshold_rep_level:
  assumes "0 \<le> s"
  shows "rep_threshold (rep_level s) \<le> s"
proof (cases "s = 0")
  case True
  then show ?thesis by (simp add: rep_level_def rep_threshold_def)
next
  case False
  with assms have pos: "0 < s" by simp
  define x where "x = of_int s / LOG_SCALE + 1"
  have x: "0 < x" using pos LOG_SCALE_pos by (simp add: x_def add_pos_pos)
  define l where "l = rep_level s"
  have l0: "0 \<le> l" and l_le: "of_int l \<le> log LOG_BASE x"
  proof -
    show "0 \<le> l" using rep_level_range [of s] by (simp add: l_def)
    have "1 \<le> x" using pos LOG_SCALE_pos by (simp add: x_def)
    then have "0 \<le> log LOG_BASE x" using LOG_BASE_gt_1 by simp
    then have "0 \<le> \<lfloor>log LOG_BASE x\<rfloor>" by simp
    then have "l \<le> \<lfloor>log LOG_BASE x\<rfloor>"
      using pos unfolding l_def rep_level_def x_def [symmetric] by simp
    then have "of_int l \<le> (of_int \<lfloor>log LOG_BASE x\<rfloor> :: real)" by simp
    also have "\<dots> \<le> log LOG_BASE x" by simp
    finally show "of_int l \<le> log LOG_BASE x" .
  qed
  have "LOG_BASE powr of_int l \<le> x"
    using l_le LOG_BASE_gt_1 x by (simp add: le_log_iff)
  moreover have "LOG_BASE powr of_int l = LOG_BASE ^ nat l"
    using l0 LOG_BASE_gt_1 powr_realpow [of LOG_BASE "nat l"] by simp
  ultimately have "LOG_BASE ^ nat l - 1 \<le> of_int s / LOG_SCALE"
    by (simp add: x_def)
  then have "LOG_SCALE * (LOG_BASE ^ nat l - 1) \<le> of_int s"
    using LOG_SCALE_pos by (simp add: pos_le_divide_eq mult.commute)
  then have "py_round (LOG_SCALE * (LOG_BASE ^ nat l - 1)) \<le> s"
    by (rule py_round_le)
  with l0 assms show ?thesis
    by (simp add: rep_threshold_def l_def [symmetric])
qed

lemma rep_level_eq:
  assumes "0 < s" "0 \<le> l" "l \<le> 4"
    and "LOG_BASE ^ nat l \<le> of_int s / LOG_SCALE + 1"
    and "of_int s / LOG_SCALE + 1 < LOG_BASE ^ nat (l + 1)"
  shows "rep_level s = l"
proof -
  define x where "x = of_int s / LOG_SCALE + 1"
  have x: "0 < x" using assms(1) LOG_SCALE_pos by (simp add: x_def add_pos_pos)
  have p: "LOG_BASE powr of_int l = LOG_BASE ^ nat l"
    "LOG_BASE powr (of_int l + 1) = LOG_BASE ^ nat (l + 1)"
    using assms(2) LOG_BASE_gt_1 powr_realpow [of LOG_BASE "nat l"]
      powr_realpow [of LOG_BASE "nat (l + 1)"] by simp_all
  have "of_int l \<le> log LOG_BASE x"
    using assms(4) LOG_BASE_gt_1 x by (simp add: le_log_iff p x_def)
  moreover have "log LOG_BASE x < of_int l + 1"
    using assms(5) LOG_BASE_gt_1 x by (simp add: log_less_iff p x_def)
  ultimately have "\<lfloor>log LOG_BASE x\<rfloor> = l" by (simp add: floor_eq_iff)
  then show ?thesis
    using assms(1-3) by (simp add: rep_level_def x_def TIER_NAMES_def)
qed

lemma rep_level_3: "rep_level 3 = 0"
  by (rule rep_level_eq) (simp_all add: LOG_SCALE_def LOG_BASE_def)

lemma rep_level_12: "rep_level 12 = 1"
  by (rule rep_level_eq) (simp_all add: LOG_SCALE_def LOG_BASE_def power2_eq_square)

lemma rep_threshold_1: "rep_threshold 1 = 10"
proof -
  have "LOG_SCALE * (LOG_BASE ^ nat (max 0 1) - 1) = 10"
    by (simp add: LOG_SCALE_def LOG_BASE_def)
  then show ?thesis by (simp add: rep_threshold_def py_round_def)
qed

subsection \<open>The sliding window\<close>

lemma allowed_times_Nil [simp]: "allowed_times [] rs = []"
  by (simp add: allowed_times_def)

lemma allowed_times_Cons [simp]:
  "allowed_times (t # ts) (r # rs) =
     (if r = Inr (True, 0) then t # allowed_times ts rs else allowed_times ts rs)"
  by (simp add: allowed_times_def)

lemma check_cases:
  obtains (refused) r where
      "check_and_consume_broadcast_quota c now db uid m w = (r, db)" "r \<noteq> Inr (True, 0)"
  | (allowed)
      "check_and_consume_broadcast_quota c now db uid m w =
         (Inr (True, 0),
          insert_action c uid now (delete_actions_before c (now - timedelta_days 2) db))"
      "timedelta_seconds w = Inr (w * 1000000)"
      "valid_datetime (now - w * 1000000)"
      "valid_datetime (now - timedelta_days 2)"
      "int (length (select_actions_since c
          (delete_actions_before c (now - timedelta_days 2) db) uid (now - w * 1000000))) < m"
proof (cases "timedelta_seconds w")
  case (Inl e)
  then have "check_and_consume_broadcast_quota c now db uid m w = (Inl e, db)"
    by (simp add: check_and_consume_broadcast_quota_def)
  then show ?thesis by (rule refused) simp
next
  case (Inr window)
  then have window: "window = w * 1000000"
    by (simp add: timedelta_seconds_def split: if_splits)
  show ?thesis
  proof (cases "datetime_sub now window")
    case (Inl e)
    with Inr have "check_and_consume_broadcast_quota c now db uid m w = (Inl e, db)"
      by (simp add: check_and_consume_broadcast_quota_def)
    then show ?thesis by (rule refused) simp
  next
    case ws: (Inr window_start)
    then have ws_eq: "window_start = now - w * 1000000" and ws_valid: "valid_datetime (now - w * 1000000)"
      by (simp_all add: datetime_sub_def datetime_add_def window split: if_splits)
    show ?thesis
    proof (cases "datetime_sub now (timedelta_days 2)")
      case (Inl e)
      with Inr ws have "check_and_consume_broadcast_quota c now db uid m w = (Inl e, db)"
        by (simp add: check_and_consume_broadcast_quota_def tx_defs)
      then show ?thesis by (rule refused) simp
    next
      case pb: (Inr prune_before)
      then have pb_eq: "prune_before = now - timedelta_days 2"
        and pb_valid: "valid_datetime (now - timedelta_days 2)"
        by (simp_all add: datetime_sub_def datetime_add_def split: if_splits)
      let ?rows = "select_actions_since c (delete_actions_before c prune_before db) uid window_start"
      show ?thesis
      proof (cases "m \<le> int (length ?rows)")
        case True
        then have "check_and_consume_broadcast_quota c now db uid m w =
          (case ?rows of
             [] \<Rightarrow> (Inl IndexError, db)
           | oldest # _ \<Rightarrow>
              (case parse_iso_utc c (used_at oldest) of
                 None \<Rightarrow> (Inr (False, 30), db)
               | Some oldest_dt \<Rightarrow>
                  (case datetime_add oldest_dt window of
                     Inl e \<Rightarrow> (Inl e, db)
                   | Inr unblock_at \<Rightarrow>
                       (Inr (False, max 1 (int_total_seconds (unblock_at - now))), db))))"
          using Inr ws pb
          by (simp add: check_and_consume_broadcast_quota_def tx_defs Let_def
              split: list.splits option.splits sum.splits)
        then have "\<exists>r. check_and_consume_broadcast_quota c now db uid m w = (r, db) \<and>
           r \<noteq> Inr (True, 0)"
          by (simp split: list.splits option.splits sum.splits)
        then obtain r where "check_and_consume_broadcast_quota c now db uid m w = (r, db)"
          "r \<noteq> Inr (True, 0)" by blast
        then show ?thesis by (rule refused)
      next
        case False
        then have "check_and_consume_broadcast_quota c now db uid m w =
          (Inr (True, 0), insert_action c uid now (delete_actions_before c prune_before db))"
          using Inr ws pb
          by (simp add: check_and_consume_broadcast_quota_def tx_defs Let_def)
        then show ?thesis
          using False Inr ws_valid pb_valid unfolding pb_eq ws_eq window
          by (intro allowed) simp_all
      qed
    qed
  qed
qed

lemma timedelta_days_2: "timedelta_days 2 = 172800000000"
  by (simp add: timedelta_days_def)

lemma mset_map_filter_mono:
  assumes "\<And>x. x \<in> set xs \<Longrightarrow> P x \<Longrightarrow> Q x"
  shows "mset (map f (filter P xs)) \<subseteq># mset (map f (filter Q xs))"
proof -
  have "filter_mset P (mset xs) \<subseteq># filter_mset Q (mset xs)"
    using assms by (intro filter_mset_mono_strong) simp_all
  then show ?thesis
    by (simp add: image_mset_subseteq_mono)
qed

lemma quota_inv_later:
  assumes "quota_inv c uid A db t_last" "t_last \<le> t"
  shows "quota_inv c uid A db t"
proof -
  have "mset (map (isoformat c) (filter (\<lambda>a. t - timedelta_days 2 \<le> a) A)) \<subseteq>#
        mset (map (isoformat c) (filter (\<lambda>a. t_last - timedelta_days 2 \<le> a) A))"
    using assms(2) by (intro mset_map_filter_mono) simp
  moreover from assms(1) have
    "mset (map (isoformat c) (filter (\<lambda>a. t_last - timedelta_days 2 \<le> a) A)) \<subseteq># user_texts db uid"
    by (simp add: quota_inv_def)
  ultimately have
    "mset (map (isoformat c) (filter (\<lambda>a. t - timedelta_days 2 \<le> a) A)) \<subseteq># user_texts db uid"
    by (rule subset_mset.order_trans)
  moreover from assms have "\<forall>a\<in>set A. valid_datetime a \<and> a \<le> t"
    by (fastforce simp: quota_inv_def)
  ultimately show ?thesis by (simp add: quota_inv_def)
qed

lemma user_texts_delete:
  "user_texts (delete_actions_before c pb db) uid =
     filter_mset (\<lambda>s. \<not> s < isoformat c pb) (user_texts db uid)"
proof -
  have "filter_mset (\<lambda>r. action_user_id r = uid)
          (filter_mset (\<lambda>r. \<not> used_at r < isoformat c pb) (mset (broadcast_actions db))) =
        filter_mset (\<lambda>r. \<not> used_at r < isoformat c pb)
          (filter_mset (\<lambda>r. action_user_id r = uid) (mset (broadcast_actions db)))"
    by (rule multiset_eqI) simp
  then have "image_mset used_at (filter_mset (\<lambda>r. action_user_id r = uid)
          (filter_mset (\<lambda>r. \<not> used_at r < isoformat c pb) (mset (broadcast_actions db)))) =
        filter_mset (\<lambda>s. \<not> s < isoformat c pb) (image_mset used_at
          (filter_mset (\<lambda>r. action_user_id r = uid) (mset (broadcast_actions db))))"
    by (simp only: filter_mset_image_mset)
  moreover have "broadcast_actions (delete_actions_before c pb db) =
      filter (\<lambda>r. \<not> used_at r < isoformat c pb) (broadcast_actions db)"
    by (simp add: delete_actions_before_def)
  ultimately show ?thesis
    by (simp only: user_texts_def mset_map mset_filter)
qed

lemma user_texts_insert:
  "user_texts (insert_action c uid now db) uid = add_mset (isoformat c now) (user_texts db uid)"
  by (simp add: user_texts_def insert_action_def)

lemma recent_texts_kept:
  assumes mono: "isoformat_monotone c"
    and inv: "quota_inv c uid A db now"
    and pb: "valid_datetime (now - timedelta_days 2)"
  shows "mset (map (isoformat c) (filter (\<lambda>a. now - timedelta_days 2 \<le> a) A)) \<subseteq>#
         user_texts (delete_actions_before c (now - timedelta_days 2) db) uid"
proof -
  let ?M = "mset (map (isoformat c) (filter (\<lambda>a. now - timedelta_days 2 \<le> a) A))"
  let ?Q = "\<lambda>s. \<not> s < isoformat c (now - timedelta_days 2)"
  have "\<forall>s\<in>#?M. ?Q s"
  proof
    fix s assume "s \<in># ?M"
    then obtain a where a: "a \<in> set A" "now - timedelta_days 2 \<le> a" "s = isoformat c a"
      by auto
    with inv have "valid_datetime a" by (simp add: quota_inv_def)
    with mono pb a(2) have "isoformat c (now - timedelta_days 2) \<le> isoformat c a"
      unfolding isoformat_monotone_def by blast
    with a(3) show "?Q s" by simp
  qed
  then have "filter_mset ?Q ?M = ?M" by (simp add: filter_mset_eq_conv)
  moreover have "filter_mset ?Q ?M \<subseteq># filter_mset ?Q (user_texts db uid)"
    using inv unfolding quota_inv_def by (intro multiset_filter_mono) simp
  ultimately show ?thesis by (simp add: user_texts_delete)
qed

lemma quota_inv_allowed:
  assumes mono: "isoformat_monotone c"
    and inv: "quota_inv c uid A db now"
    and now: "valid_datetime now"
    and pb: "valid_datetime (now - timedelta_days 2)"
  shows "quota_inv c uid (A @ [now])
           (insert_action c uid now (delete_actions_before c (now - timedelta_days 2) db)) now"
proof -
  from recent_texts_kept [OF mono inv pb]
  have "add_mset (isoformat c now)
          (mset (map (isoformat c) (filter (\<lambda>a. now - timedelta_days 2 \<le> a) A))) \<subseteq>#
        add_mset (isoformat c now)
          (user_texts (delete_actions_before c (now - timedelta_days 2) db) uid)"
    by simp
  with inv now show ?thesis
    by (simp add: quota_inv_def user_texts_insert timedelta_days_2)
qed

lemma length_select_actions_since:
  "length (select_actions_since c db uid ws) =
     size (filter_mset (\<lambda>s. isoformat c ws \<le> s) (user_texts db uid))"
proof -
  have "length (filter (\<lambda>r. action_user_id r = uid \<and> isoformat c ws \<le> used_at r) xs) =
        size (filter_mset (\<lambda>s. isoformat c ws \<le> s)
          (image_mset used_at (filter_mset (\<lambda>r. action_user_id r = uid) (mset xs))))" for xs
    by (induction xs) simp_all
  then show ?thesis
    by (simp add: select_actions_since_def user_texts_def)
qed

lemma window_count_bound:
  assumes mono: "isoformat_monotone c"
    and inv: "quota_inv c uid A db now"
    and short: "W \<le> timedelta_days 2"
    and ws: "valid_datetime (now - W)"
    and pb: "valid_datetime (now - timedelta_days 2)"
  shows "length (filter (\<lambda>a. now - W \<le> a) A) \<le>
         length (select_actions_since c
           (delete_actions_before c (now - timedelta_days 2) db) uid (now - W))"
proof -
  let ?P = "\<lambda>s. isoformat c (now - W) \<le> s"
  let ?recent = "\<lambda>a. now - timedelta_days 2 \<le> a"
  let ?M = "mset (map (isoformat c) (filter ?recent A))"
  let ?texts = "user_texts (delete_actions_before c (now - timedelta_days 2) db) uid"
  have "filter_mset (\<lambda>a. now - W \<le> a) (mset A) \<subseteq>#
        filter_mset (\<lambda>a. ?P (isoformat c a)) (filter_mset ?recent (mset A))"
    unfolding filter_filter_mset
  proof (rule filter_mset_mono_strong)
    show "mset A \<subseteq># mset A" by simp
    fix a assume a: "a \<in># mset A" "now - W \<le> a"
    with inv have "valid_datetime a" by (simp add: quota_inv_def)
    with mono ws a(2) have "isoformat c (now - W) \<le> isoformat c a"
      unfolding isoformat_monotone_def by blast
    with a(2) short show "?recent a \<and> ?P (isoformat c a)" by simp
  qed
  then have "image_mset (isoformat c) (filter_mset (\<lambda>a. now - W \<le> a) (mset A)) \<subseteq>#
        image_mset (isoformat c)
          (filter_mset (\<lambda>a. ?P (isoformat c a)) (filter_mset ?recent (mset A)))"
    by (rule image_mset_subseteq_mono)
  then have "mset (map (isoformat c) (filter (\<lambda>a. now - W \<le> a) A)) \<subseteq># filter_mset ?P ?M"
    by (simp only: mset_map mset_filter filter_mset_image_mset)
  moreover have "filter_mset ?P ?M \<subseteq># filter_mset ?P ?texts"
    using recent_texts_kept [OF mono inv pb] by (rule multiset_filter_mono)
  ultimately have "mset (map (isoformat c) (filter (\<lambda>a. now - W \<le> a) A)) \<subseteq>#
      filter_mset ?P ?texts"
    by (rule subset_mset.order_trans)
  then have "size (mset (map (isoformat c) (filter (\<lambda>a. now - W \<le> a) A))) \<le>
      size (filter_mset ?P ?texts)"
    by (rule size_mset_mono)
  then show ?thesis
    by (simp only: length_select_actions_since size_mset length_map)
qed

lemma length_filter_mono:
  "(\<And>x. x \<in> set xs \<Longrightarrow> P x \<Longrightarrow> Q x) \<Longrightarrow> length (filter P xs) \<le> length (filter Q xs)"
  by (induction xs) auto

lemma run_quota_bound:
  assumes mono: "isoformat_monotone c" and short: "w \<le> 172800"
  shows "sorted nows \<Longrightarrow> \<forall>t\<in>set nows. valid_datetime t \<and> t_last \<le> t \<Longrightarrow>
     quota_inv c uid A db t_last \<Longrightarrow>
     \<forall>T. length (filter (in_trailing_window w T) A) \<le> nat m \<Longrightarrow>
     length (filter (in_trailing_window w T)
        (A @ allowed_times nows (fst (run_quota c uid m w nows db)))) \<le> nat m"
proof (induction nows arbitrary: A db t_last)
  case Nil
  then show ?case by simp
next
  case (Cons now nows)
  from Cons.prems(1) have sorted: "sorted nows" and later: "\<forall>t\<in>set nows. now \<le> t"
    by simp_all
  from Cons.prems(2) have now: "valid_datetime now" "t_last \<le> now"
    and rest: "\<forall>t\<in>set nows. valid_datetime t \<and> now \<le> t"
    using later by simp_all
  have inv: "quota_inv c uid A db now"
    using Cons.prems(3) now(2) by (rule quota_inv_later)
  show ?case
  proof (cases rule: check_cases [of c now db uid m w])
    case (refused r)
    then have "allowed_times (now # nows) (fst (run_quota c uid m w (now # nows) db)) =
        allowed_times nows (fst (run_quota c uid m w nows db))"
      by (simp add: split_def Let_def)
    with Cons.IH [OF sorted rest inv Cons.prems(4)] show ?thesis by simp
  next
    case allowed
    let ?db1 = "insert_action c uid now (delete_actions_before c (now - timedelta_days 2) db)"
    have inv1: "quota_inv c uid (A @ [now]) ?db1 now"
      using mono inv now(1) allowed(4) by (rule quota_inv_allowed)
    have W: "w * 1000000 \<le> timedelta_days 2" using short by (simp add: timedelta_days_2)
    note rows = window_count_bound [OF mono inv W allowed(3) allowed(4)]
    have bound1: "\<forall>T. length (filter (in_trailing_window w T) (A @ [now])) \<le> nat m"
    proof
      fix T
      show "length (filter (in_trailing_window w T) (A @ [now])) \<le> nat m"
      proof (cases "now \<le> T")
        case False
        then have "filter (in_trailing_window w T) (A @ [now]) = filter (in_trailing_window w T) A"
          by (simp add: in_trailing_window_def)
        with Cons.prems(4) show ?thesis by simp
      next
        case True
        have "length (filter (in_trailing_window w T) A) \<le>
              length (filter (\<lambda>a. now - w * 1000000 \<le> a) A)"
          using True by (intro length_filter_mono) (simp add: in_trailing_window_def)
        also have "\<dots> \<le> length (select_actions_since c
           (delete_actions_before c (now - timedelta_days 2) db) uid (now - w * 1000000))"
          by (rule rows)
        finally have "int (length (filter (in_trailing_window w T) A)) < m"
          using allowed(5) by simp
        then have "length (filter (in_trailing_window w T) A) + 1 \<le> nat m" by simp
        then show ?thesis by simp
      qed
    qed
    from allowed(1) have "allowed_times (now # nows) (fst (run_quota c uid m w (now # nows) db)) =
        now # allowed_times nows (fst (run_quota c uid m w nows ?db1))"
      by (simp add: split_def Let_def)
    with Cons.IH [OF sorted rest inv1 bound1] show ?thesis by simp
  qed
qed


lemma oldest_is_Min:
  assumes "sort_key f ys = x # xs"
  shows "f x = Min (f ` set ys)"
proof -
  have "sorted (map f (x # xs))"
    using sorted_sort_key [of f ys] assms by simp
  then have le: "\<forall>y\<in>set xs. f x \<le> f y" by simp
  have set: "set ys = insert x (set xs)"
    using set_sort [of f ys] assms by simp
  show ?thesis
  proof (rule Min_eqI [symmetric])
    show "finite (f ` set ys)" by simp
    show "f x \<in> f ` set ys" using set by simp
    fix y assume "y \<in> f ` set ys"
    then show "f x \<le> y" using set le by auto
  qed
qed

lemma window_rows_not_pruned:
  assumes mono: "isoformat_monotone c"
    and "valid_datetime pb" "valid_datetime ws" "pb \<le> ws"
  shows "select_actions_since c (delete_actions_before c pb db) uid ws =
         select_actions_since c db uid ws"
proof -
  from assms have le: "isoformat c pb \<le> isoformat c ws"
    unfolding isoformat_monotone_def by blast
  have eq: "filter (\<lambda>r. action_user_id r = uid \<and> isoformat c ws \<le> used_at r)
          (filter (\<lambda>r. \<not> used_at r < isoformat c pb) xs) =
        filter (\<lambda>r. action_user_id r = uid \<and> isoformat c ws \<le> used_at r) xs" for xs
    using le by (induction xs) auto
  have "broadcast_actions (delete_actions_before c pb db) =
      filter (\<lambda>r. \<not> used_at r < isoformat c pb) (broadcast_actions db)"
    by (simp add: delete_actions_before_def)
  then show ?thesis
    by (simp only: select_actions_since_def eq)
qed

lemma limits_for_rep_range:
  "limits_for_rep s = (m, w) \<Longrightarrow> w \<le> 172800 \<and> 1 \<le> m"
  by (auto simp: limits_for_rep_def split: if_splits)

lemma actions_parse_check:
  assumes "isoformat_parses c" "valid_datetime now" "actions_parse c db"
  shows "actions_parse c (snd (check_and_consume_broadcast_quota c now db uid m w))"
proof (cases rule: check_cases [of c now db uid m w])
  case (refused r)
  with assms(3) show ?thesis by simp
next
  case allowed
  from assms(1,2) have "parse_iso_utc c (isoformat c now) = Some now"
    by (simp add: isoformat_parses_def)
  with assms(3) show ?thesis
    unfolding allowed(1)
    by (auto simp: actions_parse_def insert_action_def delete_actions_before_def)
qed

lemma actions_parse_run:
  assumes "isoformat_parses c"
  shows "\<forall>t\<in>set nows. valid_datetime t \<Longrightarrow> actions_parse c db \<Longrightarrow>
     actions_parse c (snd (run_quota c uid m w nows db))"
proof (induction nows arbitrary: db)
  case Nil
  then show ?case by simp
next
  case (Cons now nows)
  from Cons.prems have "actions_parse c (snd (check_and_consume_broadcast_quota c now db uid m w))"
    by (intro actions_parse_check [OF assms]) simp_all
  with Cons.IH [of "snd (check_and_consume_broadcast_quota c now db uid m w)"] Cons.prems(1)
  show ?case by (simp add: split_def Let_def)
qed

lemma run_quota_nth:
  "i < length nows \<Longrightarrow>
     fst (run_quota c uid m w nows db) ! i =
       fst (check_and_consume_broadcast_quota c (nows ! i)
              (snd (run_quota c uid m w (take i nows) db)) uid m w)"
proof (induction nows arbitrary: i db)
  case Nil
  then show ?case by simp
next
  case (Cons now nows)
  show ?case
  proof (cases i)
    case 0
    then show ?thesis by (simp add: split_def Let_def)
  next
    case (Suc j)
    with Cons.prems have "j < length nows" by simp
    from Cons.IH [OF this] Suc show ?thesis by (simp add: split_def Let_def)
  qed
qed

lemma denied_retry_after:
  assumes mono: "isoformat_monotone c" and short: "w \<le> 172800"
    and parse: "actions_parse c db"
    and res: "fst (check_and_consume_broadcast_quota c now db uid m w) = Inr (False, r)"
  shows "Some r = retry_after_spec c db uid now w"
proof -
  from res obtain window where td: "timedelta_seconds w = Inr window"
    by (cases "timedelta_seconds w") (simp_all add: check_and_consume_broadcast_quota_def)
  then have window: "window = w * 1000000"
    by (simp add: timedelta_seconds_def split: if_splits)
  from res td obtain window_start where ws: "datetime_sub now window = Inr window_start"
    by (cases "datetime_sub now window") (simp_all add: check_and_consume_broadcast_quota_def)
  then have ws_eq: "window_start = now - w * 1000000" and ws_valid: "valid_datetime window_start"
    by (auto simp: datetime_sub_def datetime_add_def window split: if_splits)
  from res td ws obtain prune_before where pb: "datetime_sub now (timedelta_days 2) = Inr prune_before"
    by (cases "datetime_sub now (timedelta_days 2)")
       (simp_all add: check_and_consume_broadcast_quota_def tx_defs)
  then have pb_eq: "prune_before = now - timedelta_days 2" and pb_valid: "valid_datetime prune_before"
    by (auto simp: datetime_sub_def datetime_add_def split: if_splits)
  have "prune_before \<le> window_start"
    using short by (simp add: pb_eq ws_eq timedelta_days_2)
  note same = window_rows_not_pruned [OF mono pb_valid ws_valid this, of db uid]
  let ?rows = "select_actions_since c db uid window_start"
  have unfolded: "fst (check_and_consume_broadcast_quota c now db uid m w) =
     (if m \<le> int (length ?rows)
      then (case ?rows of
              [] \<Rightarrow> Inl IndexError
            | oldest # _ \<Rightarrow>
               (case parse_iso_utc c (used_at oldest) of
                  None \<Rightarrow> Inr (False, 30)
                | Some oldest_dt \<Rightarrow>
                   (case datetime_add oldest_dt window of
                      Inl e \<Rightarrow> Inl e
                    | Inr unblock_at \<Rightarrow>
                        Inr (False, max 1 (int_total_seconds (unblock_at - now))))))
      else Inr (True, 0))"
    using td ws pb
    by (simp add: check_and_consume_broadcast_quota_def tx_defs Let_def same
        split: list.splits option.splits sum.splits)
  from res unfolded obtain oldest rest where rows: "?rows = oldest # rest"
    by (cases ?rows) (simp_all split: if_splits)
  have oldest: "used_at oldest =
      Min (used_at ` set (filter (\<lambda>r. action_user_id r = uid \<and>
             isoformat c (now - w * 1000000) \<le> used_at r) (broadcast_actions db)))"
    using rows unfolding select_actions_since_def ws_eq by (rule oldest_is_Min)
  have "oldest \<in> set ?rows" using rows by simp
  then have "oldest \<in> set (broadcast_actions db)"
    by (simp add: select_actions_since_def)
  with parse obtain t where Some: "parse_iso_utc c (used_at oldest) = Some t"
    by (auto simp: actions_parse_def)
  with res unfolded rows obtain unblock_at where u: "datetime_add t window = Inr unblock_at"
    and r: "r = max 1 (int_total_seconds (unblock_at - now))"
    by (cases "datetime_add t window") (simp_all split: if_splits)
  from u have "unblock_at = t + w * 1000000"
    by (simp add: datetime_add_def window split: if_splits)
  with r Some show ?thesis
    unfolding retry_after_spec_def Let_def oldest [symmetric] by simp
qed

subsection \<open>Runs of the quota check on the concrete ledger\<close>

lemma demo_codec_monotone: "isoformat_monotone demo_codec"
  by (simp add: isoformat_monotone_def demo_isoformat_mono)

lemmas demo_eval =
  demo_isoformat_less_iff demo_isoformat_le_iff valid_datetime_def MIN_DATETIME_def
  MAX_DATETIME_def T0_def timedelta_seconds_def datetime_sub_def datetime_add_def
  timedelta_days_def delete_actions_before_def select_actions_since_def insert_action_def
  int_total_seconds_def parse_iso_utc_def demo_roundtrip demo_isoformat_nonempty

lemma demo_actions_empty [simp]: "broadcast_actions demo_ledger = []"
  by (simp add: demo_ledger_def)

lemma demo_codec_parses: "isoformat_parses demo_codec"
  by (simp add: isoformat_parses_def)

lemma demo_ledger_actions_parse: "actions_parse demo_codec demo_ledger"
  by (simp add: actions_parse_def)

lemma quota_strict_1:
  "check_and_consume_broadcast_quota demo_codec T0 demo_ledger 8 1 3600 =
     (Inr (True, 0), demo_ledger\<lparr>broadcast_actions :=
        [\<lparr>action_user_id = 8, used_at = demo_isoformat T0\<rparr>]\<rparr>)"
  by (simp add: check_and_consume_broadcast_quota_def tx_defs Let_def demo_eval)

lemma quota_strict_2:
  "check_and_consume_broadcast_quota demo_codec (T0 + 1000000)
     (demo_ledger\<lparr>broadcast_actions :=
        [\<lparr>action_user_id = 8, used_at = demo_isoformat T0\<rparr>]\<rparr>) 8 1 3600 =
     (Inr (False, 3599), demo_ledger\<lparr>broadcast_actions :=
        [\<lparr>action_user_id = 8, used_at = demo_isoformat T0\<rparr>]\<rparr>)"
  by (simp add: check_and_consume_broadcast_quota_def tx_defs Let_def demo_eval)

lemma quota_strict_3:
  "check_and_consume_broadcast_quota demo_codec (T0 + 3601000000)
     (demo_ledger\<lparr>broadcast_actions :=
        [\<lparr>action_user_id = 8, used_at = demo_isoformat T0\<rparr>]\<rparr>) 8 1 3600 =
     (Inr (True, 0), demo_ledger\<lparr>broadcast_actions :=
        [\<lparr>action_user_id = 8, used_at = demo_isoformat T0\<rparr>,
         \<lparr>action_user_id = 8, used_at = demo_isoformat (T0 + 3601000000)\<rparr>]\<rparr>)"
  by (simp add: check_and_consume_broadcast_quota_def tx_defs Let_def demo_eval)

lemma quota_run_strict:
  "fst (run_quota demo_codec 8 1 3600 [T0, T0 + 1000000, T0 + 3601000000] demo_ledger) =
     [Inr (True, 0), Inr (False, 3599), Inr (True, 0)]"
  by (simp add: quota_strict_1 quota_strict_2 quota_strict_3)

lemma quota_run_strict_prefix:
  "snd (run_quota demo_codec 8 1 3600 (take 1 [T0, T0 + 1000000, T0 + 3601000000]) demo_ledger) =
     demo_ledger\<lparr>broadcast_actions := [\<lparr>action_user_id = 8, used_at = demo_isoformat T0\<rparr>]\<rparr>"
  by (simp add: quota_strict_1)

lemma quota_reach_1:
  "check_and_consume_broadcast_quota demo_codec (T0 - 172805000000) demo_ledger 9 5 3600 =
     (Inr (True, 0), demo_ledger\<lparr>broadcast_actions :=
        [\<lparr>action_user_id = 9, used_at = demo_isoformat (T0 - 172805000000)\<rparr>]\<rparr>)"
  by (simp add: check_and_consume_broadcast_quota_def tx_defs Let_def demo_eval)

lemma quota_reach_run:
  "run_quota demo_codec 8 5 3600 quota_calls_8
     (demo_ledger\<lparr>broadcast_actions :=
        [\<lparr>action_user_id = 9, used_at = demo_isoformat (T0 - 172805000000)\<rparr>]\<rparr>) =
   ([Inr (True, 0), Inr (True, 0), Inr (True, 0), Inr (True, 0), Inr (True, 0)],
    demo_ledger\<lparr>broadcast_actions := quota_rows_reached\<rparr>)"
  by (simp add: quota_calls_8_def quota_rows_reached_def
      check_and_consume_broadcast_quota_def tx_defs Let_def demo_eval)

lemma quota_ledger_reached_eq:
  "quota_ledger_reached = demo_ledger\<lparr>broadcast_actions := quota_rows_reached\<rparr>"
  by (simp add: quota_ledger_reached_def quota_reach_1 quota_reach_run)

lemma quota_reach_denied:
  "check_and_consume_broadcast_quota demo_codec T0
     (demo_ledger\<lparr>broadcast_actions := quota_rows_reached\<rparr>) 8 5 3600 =
     (Inr (False, 3550), demo_ledger\<lparr>broadcast_actions := quota_rows_reached\<rparr>)"
  by (simp add: quota_rows_reached_def
      check_and_consume_broadcast_quota_def tx_defs Let_def demo_eval)

lemma quota_reach_allowed:
  "check_and_consume_broadcast_quota demo_codec T0
     (demo_ledger\<lparr>broadcast_actions := quota_rows_reached\<rparr>) 9 5 3600 =
     (Inr (True, 0), demo_ledger\<lparr>broadcast_actions :=
        tl quota_rows_reached @ [\<lparr>action_user_id = 9, used_at = demo_isoformat T0\<rparr>]\<rparr>)"
  by (simp add: quota_rows_reached_def
      check_and_consume_broadcast_quota_def tx_defs Let_def demo_eval)

lemma demo_scores_zero: "get_rep demo_ledger 8 = 0" "get_rep demo_ledger 9 = 0"
  "get_rep (demo_ledger\<lparr>broadcast_actions := xs\<rparr>) 8 = 0"
  by (simp_all add: get_rep_def demo_ledger_def)

lemma quota_row9_facts:
  "\<lparr>action_user_id = 9, used_at = demo_isoformat (T0 - 172805000000)\<rparr> \<in> set quota_rows_reached"
  "\<lparr>action_user_id = 9, used_at = demo_isoformat (T0 - 172805000000)\<rparr>
     \<notin> set (tl quota_rows_reached)"
  "demo_isoformat (T0 - 172805000000) \<noteq> demo_isoformat T0"
  "demo_isoformat (T0 - 172805000000) < demo_isoformat (T0 - 172800000000)"
proof -
  show "\<lparr>action_user_id = 9, used_at = demo_isoformat (T0 - 172805000000)\<rparr> \<in> set quota_rows_reached"
    by (simp add: quota_rows_reached_def)
  show "\<lparr>action_user_id = 9, used_at = demo_isoformat (T0 - 172805000000)\<rparr>
     \<notin> set (tl quota_rows_reached)"
    by (simp add: quota_rows_reached_def)
  show "demo_isoformat (T0 - 172805000000) \<noteq> demo_isoformat T0"
    using demo_isoformat_less_iff [of "T0 - 172805000000" T0] by (simp add: valid_before_T0)
  show "demo_isoformat (T0 - 172805000000) < demo_isoformat (T0 - 172800000000)"
    by (simp add: demo_isoformat_less_iff valid_before_T0)
qed

section \<open>The claims\<close>

text \<open>
  C8. \<open>_limits_for_rep\<close> is defined on every integer score by the five branches above, and
  it is monotone: for scores \<open>a \<le> b\<close> the \<open>max_actions\<close> of \<open>a\<close> is at most that of \<open>b\<close> and
  the \<open>window_seconds\<close> of \<open>a\<close> is at least that of \<open>b\<close>. A lower score never gets a
  looser limit.
\<close>

theorem limits_for_rep_monotone:
  "a \<le> b \<Longrightarrow>
     fst (limits_for_rep a) \<le> fst (limits_for_rep b) \<and>
     snd (limits_for_rep b) \<le> snd (limits_for_rep a)"
  by (simp add: limits_for_rep_def)

theorem limits_for_rep_monotone_witness:
  "(-40::int) \<le> 3 \<and>
     fst (limits_for_rep (-40)) \<le> fst (limits_for_rep 3) \<and>
     snd (limits_for_rep 3) \<le> snd (limits_for_rep (-40)) \<and>
     limits_for_rep (-40) = (1, 14400) \<and> limits_for_rep 3 = (5, 3600)"
  using limits_for_rep_monotone [of "-40" 3] by (simp add: limits_for_rep_def)

text \<open>
  C9. When \<open>rep_users\<close> holds no row for \<open>user_id\<close>, \<open>adjust_rep(user_id, delta)\<close> changes
  nothing, whatever \<open>delta\<close> is: no account row appears, every table is as before, and
  \<open>get_rep(user_id)\<close> still answers 0.
\<close>

theorem adjust_rep_without_account:
  "find (\<lambda>r. user_id r = uid) (rep_users db) = None \<Longrightarrow>
     adjust_rep c now db uid delta = db \<and>
     find (\<lambda>r. user_id r = uid) (rep_users (adjust_rep c now db uid delta)) = None \<and>
     get_rep (adjust_rep c now db uid delta) uid = 0"
  by (simp add: adjust_rep_def get_rep_def connect_def commit_def close_def)

theorem adjust_rep_without_account_witness:
  "find (\<lambda>r. user_id r = 7) (rep_users demo_ledger_no_account) = None \<and>
   adjust_rep demo_codec T0 demo_ledger_no_account 7 5 = demo_ledger_no_account \<and>
   find (\<lambda>r. user_id r = 7) (rep_users (adjust_rep demo_codec T0 demo_ledger_no_account 7 5)) = None \<and>
   get_rep (adjust_rep demo_codec T0 demo_ledger_no_account 7 5) 7 = 0"
proof -
  have h: "find (\<lambda>r. user_id r = 7) (rep_users demo_ledger_no_account) = None"
    by (simp add: demo_ledger_no_account_def)
  from adjust_rep_without_account [OF h, of demo_codec T0 5] h show ?thesis
    by (simp add: demo_ledger_no_account_facts)
qed





text \<open>
  C4. Take a tracked message whose \<open>created_at\<close> is more than the TTL of four hours before
  the listener's clock reading. No reaction event on it, added or removed, changes
  \<open>rep_users\<close>, so no reputation score changes. A reaction event that casts or withdraws
  a vote, which is one with the thumbs-up or the thumbs-down emoji and, when added, not
  the bot's own, reaches the lookup of the message, and the listener deletes the stale
  \<open>rep_messages\<close> row together with the vote rows of the message.
\<close>

theorem stale_reaction_deletes_message:
  assumes "get_rep_message db (payload_message_id p) = Some msg"
    and "parse_iso_utc c (created_at msg) = Some t"
    and "at_window k - t > REP_TTL_SECONDS * 1000000"
  shows "rep_users (on_raw_reaction_add c bot_user k p db) = rep_users db \<and>
    rep_users (on_raw_reaction_remove c k p db) = rep_users db \<and>
    (payload_emoji p \<in> {THUMBS_UP, THUMBS_DOWN} \<longrightarrow>
       get_rep_message (on_raw_reaction_remove c k p db) (payload_message_id p) = None \<and>
       message_votes (on_raw_reaction_remove c k p db) (payload_message_id p) = [] \<and>
       (bot_user \<noteq> Some (payload_user_id p) \<longrightarrow>
          get_rep_message (on_raw_reaction_add c bot_user k p db) (payload_message_id p) = None \<and>
          message_votes (on_raw_reaction_add c bot_user k p db) (payload_message_id p) = []))"
proof -
  have stale: "\<not> within_rep_window c (at_window k) (created_at msg)"
    using assms(2,3) by (rule stale_not_within)
  note a = add_on_stale [OF assms(1) stale, of bot_user]
  note r = remove_on_stale [OF assms(1) stale]
  have gone: "get_rep_message (prune_rep c (at_prune k) (at_marker k)
        (delete_rep_message db (payload_message_id p))) (payload_message_id p) = None"
    by (intro get_rep_message_None_prune_rep get_rep_message_delete_rep_message)
  have votes_gone: "message_votes (prune_rep c (at_prune k) (at_marker k)
        (delete_rep_message db (payload_message_id p))) (payload_message_id p) = []"
    by (intro message_votes_prune_rep message_votes_delete_rep_message)
  show ?thesis
    unfolding a r using gone votes_gone by simp
qed

theorem stale_reaction_deletes_message_witness:
  "get_rep_message demo_voted 1 = Some demo_message \<and>
   parse_iso_utc demo_codec (created_at demo_message) = Some T0 \<and>
   T_STALE - T0 > REP_TTL_SECONDS * 1000000 \<and>
   THUMBS_DOWN \<in> {THUMBS_UP, THUMBS_DOWN} \<and>
   Some (99::int) \<noteq> Some 8 \<and>
   message_votes demo_voted 1 \<noteq> [] \<and>
   rep_users (on_raw_reaction_add demo_codec (Some 99) (demo_clock T_STALE)
      (reaction 8 THUMBS_DOWN) demo_voted) = rep_users demo_voted \<and>
   rep_users (on_raw_reaction_remove demo_codec (demo_clock T_STALE)
      (reaction 8 THUMBS_DOWN) demo_voted) = rep_users demo_voted \<and>
   get_rep_message (on_raw_reaction_remove demo_codec (demo_clock T_STALE)
      (reaction 8 THUMBS_DOWN) demo_voted) 1 = None \<and>
   message_votes (on_raw_reaction_remove demo_codec (demo_clock T_STALE)
      (reaction 8 THUMBS_DOWN) demo_voted) 1 = [] \<and>
   get_rep_message (on_raw_reaction_add demo_codec (Some 99) (demo_clock T_STALE)
      (reaction 8 THUMBS_DOWN) demo_voted) 1 = None \<and>
   message_votes (on_raw_reaction_add demo_codec (Some 99) (demo_clock T_STALE)
      (reaction 8 THUMBS_DOWN) demo_voted) 1 = []"
proof -
  have h1: "get_rep_message demo_voted (payload_message_id (reaction 8 THUMBS_DOWN)) = Some demo_message"
    by (simp add: demo_voted_facts)
  have h2: "parse_iso_utc demo_codec (created_at demo_message) = Some T0"
    by (simp add: demo_ledger_facts)
  have h3: "at_window (demo_clock T_STALE) - T0 > REP_TTL_SECONDS * 1000000"
    using T_STALE_stale by simp
  note th = stale_reaction_deletes_message [OF h1 h2 h3, of "Some 99"]
  have v: "message_votes demo_voted 1 \<noteq> []"
    using demo_voted_facts(2) by (rule get_vote_Some_message_votes)
  from th v h2 T_STALE_stale show ?thesis
    by (simp add: demo_voted_facts)
qed


text \<open>
  C5. A reaction added to a tracked message by the message's own author, with whatever
  emoji and so for both vote values, changes no reputation score (\<open>rep_users\<close> is as
  before, the author's score in particular) and records no vote row: every vote row
  afterwards was there before. While the message is within the TTL the listener changes
  nothing at all; on an expired message it only deletes. The listener returns normally.
\<close>

theorem self_vote_ignored:
  assumes "get_rep_message db (payload_message_id p) = Some msg"
    and "payload_user_id p = author_id msg"
    and "db1 = on_raw_reaction_add c bot_user k p db"
  shows "rep_users db1 = rep_users db \<and>
    get_rep db1 (author_id msg) = get_rep db (author_id msg) \<and>
    set (rep_votes db1) \<subseteq> set (rep_votes db) \<and>
    (within_rep_window c (at_window k) (created_at msg) \<longrightarrow> db1 = db)"
proof (cases "within_rep_window c (at_window k) (created_at msg)")
  case True
  with assms have "db1 = db" by (simp add: on_raw_reaction_add_def)
  then show ?thesis by simp
next
  case False
  note a = add_on_stale [OF assms(1) False, of bot_user, folded assms(3)]
  have users: "rep_users db1 = rep_users db" unfolding a by simp
  have "set (rep_votes (prune_rep c (at_prune k) (at_marker k)
            (delete_rep_message db (payload_message_id p)))) \<subseteq> set (rep_votes db)"
    by (rule subset_trans [OF rep_votes_prune_rep_subset rep_votes_delete_rep_message])
  then have "set (rep_votes db1) \<subseteq> set (rep_votes db)"
    unfolding a by simp
  with users False show ?thesis by (simp add: get_rep_def)
qed

theorem self_vote_ignored_witness:
  "get_rep_message demo_ledger 1 = Some demo_message \<and>
   (7::int) = author_id demo_message \<and>
   get_rep demo_ledger 7 = 3 \<and>
   on_raw_reaction_add demo_codec (Some 99) (demo_clock (T0 + 10000000))
      (reaction 7 THUMBS_UP) demo_ledger = demo_ledger \<and>
   get_rep (on_raw_reaction_add demo_codec (Some 99) (demo_clock (T0 + 10000000))
      (reaction 7 THUMBS_UP) demo_ledger) 7 = 3 \<and>
   rep_votes (on_raw_reaction_add demo_codec (Some 99) (demo_clock (T0 + 10000000))
      (reaction 7 THUMBS_UP) demo_ledger) = []"
proof -
  have h1: "get_rep_message demo_ledger (payload_message_id (reaction 7 THUMBS_UP)) = Some demo_message"
    by (simp add: demo_ledger_facts)
  have h2: "payload_user_id (reaction 7 THUMBS_UP) = author_id demo_message"
    by (simp add: demo_ledger_facts)
  note th = self_vote_ignored [OF h1 h2 refl, of demo_codec "Some 99" "demo_clock (T0 + 10000000)"]
  then have "on_raw_reaction_add demo_codec (Some 99) (demo_clock (T0 + 10000000))
      (reaction 7 THUMBS_UP) demo_ledger = demo_ledger"
    by (simp add: demo_ledger_facts)
  then show ?thesis
    by (simp add: demo_ledger_facts) (simp add: demo_ledger_def)
qed

text \<open>
  C10. When the call gets as far as the query, the number of rows the query returns is at
  least \<open>max_actions\<close>, and the \<open>used_at\<close> of the first of them, the oldest row in the
  window, does not parse, the call returns \<open>(False, 30)\<close>: a fixed wait of 30 seconds, not
  one computed from the window. The ledger is as before the call.
\<close>

theorem quota_denied_unparsable_oldest:
  assumes "timedelta_seconds window_seconds = Inr window"
    and "datetime_sub now window = Inr window_start"
    and "datetime_sub now (timedelta_days 2) = Inr prune_before"
    and "select_actions_since c (delete_actions_before c prune_before db) uid window_start
           = oldest # rest"
    and "max_actions \<le> int (length (oldest # rest))"
    and "parse_iso_utc c (used_at oldest) = None"
  shows "check_and_consume_broadcast_quota c now db uid max_actions window_seconds
           = (Inr (False, 30), db)"
  using assms
  by (simp add: check_and_consume_broadcast_quota_def tx_defs Let_def)

theorem quota_denied_unparsable_oldest_witness:
  "timedelta_seconds 3600 = Inr 3600000000 \<and>
   datetime_sub T0 3600000000 = Inr (T0 - 3600000000) \<and>
   datetime_sub T0 (timedelta_days 2) = Inr (T0 - 172800000000) \<and>
   select_actions_since demo_codec
     (delete_actions_before demo_codec (T0 - 172800000000) quota_ledger_garbled) 8
     (T0 - 3600000000) = [\<lparr>action_user_id = 8, used_at = ''garbled''\<rparr>] \<and>
   (1::int) \<le> int (length [\<lparr>action_user_id = 8, used_at = ''garbled''\<rparr>]) \<and>
   parse_iso_utc demo_codec ''garbled'' = None \<and>
   check_and_consume_broadcast_quota demo_codec T0 quota_ledger_garbled 8 1 3600
     = (Inr (False, 30), quota_ledger_garbled)"
proof -
  have h1: "timedelta_seconds 3600 = Inr 3600000000"
    by (simp add: timedelta_seconds_def)
  have h2: "datetime_sub T0 3600000000 = Inr (T0 - 3600000000)"
    using valid_near_T0 [of "- 3600000000"] by (simp add: datetime_sub_def datetime_add_def)
  have h3: "datetime_sub T0 (timedelta_days 2) = Inr (T0 - 172800000000)"
    using valid_near_T0 [of "- 172800000000"]
    by (simp add: datetime_sub_def datetime_add_def timedelta_days_def)
  have h4: "select_actions_since demo_codec
     (delete_actions_before demo_codec (T0 - 172800000000) quota_ledger_garbled) 8
     (T0 - 3600000000) = [\<lparr>action_user_id = 8, used_at = ''garbled''\<rparr>]"
    using less_not_sym [OF demo_isoformat_below_letters [of "T0 - 172800000000" "''arbled''"]]
      less_not_sym [OF demo_isoformat_below_letters [of "T0 - 3600000000" "''arbled''"]]
    by (simp add: select_actions_since_def delete_actions_before_def quota_ledger_garbled_def
        not_less [symmetric])
  have h5: "(1::int) \<le> int (length [\<lparr>action_user_id = 8, used_at = ''garbled''\<rparr>])" by simp
  have h6: "parse_iso_utc demo_codec (used_at \<lparr>action_user_id = 8, used_at = ''garbled''\<rparr>) = None"
    using parse_garbled by simp
  from quota_denied_unparsable_oldest [OF h1 h2 h3 h4 h5 h6] h1 h2 h3 h4 parse_garbled
  show ?thesis by simp
qed


text \<open>
  C6. The claim is that every call, allowed or denied, deletes the rows older than the
  two-day horizon and that the deletion is in the store afterwards. The function runs the
  \<open>DELETE\<close> on every call, but only the allowing return commits. \<open>quota_ledger_reached\<close> is
  the ledger that six allowed calls leave, each made with the limits of the caller's
  score. On it a sixth call of user 8 within the hour, at \<open>T0\<close>, is denied, and the row of
  user 9, by then older than two days, is still in the store after the call; an allowed
  call of user 9 at \<open>T0\<close> on the same ledger removes the row.
\<close>

theorem quota_denied_prune_not_persisted:
  "limits_for_rep (get_rep demo_ledger 9) = (5, 3600) \<and>
   limits_for_rep (get_rep demo_ledger 8) = (5, 3600) \<and>
   fst (check_and_consume_broadcast_quota demo_codec (T0 - 172805000000) demo_ledger 9 5 3600)
     = Inr (True, 0) \<and>
   run_quota demo_codec 8 5 3600 quota_calls_8
     (snd (check_and_consume_broadcast_quota demo_codec (T0 - 172805000000) demo_ledger 9 5 3600))
     = ([Inr (True, 0), Inr (True, 0), Inr (True, 0), Inr (True, 0), Inr (True, 0)],
        quota_ledger_reached) \<and>
   broadcast_actions quota_ledger_reached = quota_rows_reached \<and>
   limits_for_rep (get_rep quota_ledger_reached 8) = (5, 3600) \<and>
   \<lparr>action_user_id = 9, used_at = demo_isoformat (T0 - 172805000000)\<rparr>
     \<in> set (broadcast_actions quota_ledger_reached) \<and>
   used_at \<lparr>action_user_id = 9, used_at = demo_isoformat (T0 - 172805000000)\<rparr>
     < isoformat demo_codec (T0 - 172800000000) \<and>
   check_and_consume_broadcast_quota demo_codec T0 quota_ledger_reached 8 5 3600
     = (Inr (False, 3550), quota_ledger_reached) \<and>
   \<lparr>action_user_id = 9, used_at = demo_isoformat (T0 - 172805000000)\<rparr>
     \<in> set (broadcast_actions
         (snd (check_and_consume_broadcast_quota demo_codec T0 quota_ledger_reached 8 5 3600))) \<and>
   fst (check_and_consume_broadcast_quota demo_codec T0 quota_ledger_reached 9 5 3600)
     = Inr (True, 0) \<and>
   \<lparr>action_user_id = 9, used_at = demo_isoformat (T0 - 172805000000)\<rparr>
     \<notin> set (broadcast_actions
         (snd (check_and_consume_broadcast_quota demo_codec T0 quota_ledger_reached 9 5 3600)))"
  by (simp add: quota_ledger_reached_eq quota_reach_1 quota_reach_run
      quota_reach_denied quota_reach_allowed limits_for_rep_def demo_scores_zero
      quota_row9_facts)

text \<open>
  C7, as amended. For all scores \<open>a < b\<close>, \<open>rep_level a \<le> rep_level b\<close>; and for every
  score \<open>s \<ge> 0\<close>, \<open>rep_threshold (rep_level s) \<le> s\<close>. The level is 0 for \<open>s \<le> 0\<close> and
  always lies in the tier range, 0 up to the index of the last tier name.
\<close>

theorem tier_monotone_and_threshold:
  "(a < b \<longrightarrow> rep_level a \<le> rep_level b) \<and>
   (0 \<le> s \<longrightarrow> rep_threshold (rep_level s) \<le> s) \<and>
   0 \<le> rep_level s \<and> rep_level s \<le> int (length TIER_NAMES) - 1 \<and>
   (s \<le> 0 \<longrightarrow> rep_level s = 0)"
  using rep_level_mono [of a b] rep_threshold_rep_level [of s] rep_level_range [of s]
  by (simp add: TIER_NAMES_def rep_level_def)

theorem tier_monotone_and_threshold_witness:
  "(3::int) < 12 \<and> rep_level 3 \<le> rep_level 12 \<and>
   (0::int) \<le> 12 \<and> rep_threshold (rep_level 12) \<le> 12 \<and>
   rep_level 3 = 0 \<and> rep_level 12 = 1 \<and> rep_threshold 1 = 10"
  using tier_monotone_and_threshold [of 3 12 12]
  by (simp add: rep_level_3 rep_level_12 rep_threshold_1)
text \<open>
  The claim as stated, for every integer score, fails for negative scores: the score
  \<open>-1\<close> has level 0, whose threshold is 0.
\<close>

theorem tier_threshold_negative_score_counterexample:
  "rep_level (- 1) = 0 \<and> rep_threshold 0 = 0 \<and> \<not> rep_threshold (rep_level (- 1)) \<le> - 1"
  by (simp add: rep_level_def rep_threshold_def)


text \<open>
  C1. Take a sequence of \<open>check_and_consume_broadcast_quota\<close> calls for one user with
  fixed \<open>max_actions\<close> and \<open>window_seconds\<close>, the limits \<open>_limits_for_rep\<close> gives for a
  score, as \<open>_broadcast_alert\<close> passes them. The calls are made at clock readings that
  never go back and that Python can represent; \<open>isoformat\<close> is order-preserving on those
  and \<open>fromisoformat\<close> reads its texts back; the rows in the table at the start were
  written by the program, so they parse. Then in any interval of \<open>window_seconds\<close> ending
  at any instant \<open>T\<close>, at most \<open>max_actions\<close> of the calls returned \<open>allowed = true\<close>. And
  every denied call of the sequence returns as \<open>retry_after\<close> the \<open>used_at\<close> of the oldest
  row of the user inside the current window of the ledger it ran on, plus
  \<open>window_seconds\<close>, minus now, cut to whole seconds and raised to at least 1.
\<close>

theorem sliding_window_quota:
  assumes "isoformat_monotone c"
    and "isoformat_parses c"
    and "limits_for_rep score = (max_actions, window_seconds)"
    and "sorted nows"
    and "\<forall>t\<in>set nows. valid_datetime t"
    and "actions_parse c db"
  shows "(\<forall>T. length (filter (in_trailing_window window_seconds T)
            (allowed_times nows (fst (run_quota c uid max_actions window_seconds nows db))))
          \<le> nat max_actions) \<and>
    (\<forall>i r. i < length nows \<and>
        fst (run_quota c uid max_actions window_seconds nows db) ! i = Inr (False, r) \<longrightarrow>
        Some r = retry_after_spec c
                   (snd (run_quota c uid max_actions window_seconds (take i nows) db))
                   uid (nows ! i) window_seconds)"
proof (intro conjI allI impI)
  from assms(3) have short: "window_seconds \<le> 172800"
    using limits_for_rep_range by blast
  fix T
  show "length (filter (in_trailing_window window_seconds T)
            (allowed_times nows (fst (run_quota c uid max_actions window_seconds nows db))))
          \<le> nat max_actions"
  proof (cases nows)
    case Nil
    then show ?thesis by simp
  next
    case (Cons t0 ts)
    with assms(4) have "\<forall>t\<in>set nows. t0 \<le> t" by auto
    with assms(5) have valid: "\<forall>t\<in>set nows. valid_datetime t \<and> t0 \<le> t" by simp
    have inv: "quota_inv c uid [] db t0" by (simp add: quota_inv_def)
    have "length (filter (in_trailing_window window_seconds T)
        ([] @ allowed_times nows (fst (run_quota c uid max_actions window_seconds nows db))))
        \<le> nat max_actions"
      by (rule run_quota_bound [OF assms(1) short assms(4) valid inv]) simp
    then show ?thesis by simp
  qed
next
  from assms(3) have short: "window_seconds \<le> 172800"
    using limits_for_rep_range by blast
  fix i r
  assume h: "i < length nows \<and>
        fst (run_quota c uid max_actions window_seconds nows db) ! i = Inr (False, r)"
  let ?db = "snd (run_quota c uid max_actions window_seconds (take i nows) db)"
  from h have i: "i < length nows"
    and eq: "fst (run_quota c uid max_actions window_seconds nows db) ! i = Inr (False, r)"
    by simp_all
  have res: "fst (check_and_consume_broadcast_quota c (nows ! i) ?db uid
      max_actions window_seconds) = Inr (False, r)"
    using run_quota_nth [OF i, of c uid max_actions window_seconds db] eq by simp
  have "\<forall>t\<in>set (take i nows). valid_datetime t"
    using assms(5) by (meson in_set_takeD)
  then have "actions_parse c ?db"
    using assms(6) by (intro actions_parse_run [OF assms(2)])
  with assms(1) short show "Some r = retry_after_spec c ?db uid (nows ! i) window_seconds"
    using res by (rule denied_retry_after)
qed

theorem sliding_window_quota_witness:
  "isoformat_monotone demo_codec \<and>
   isoformat_parses demo_codec \<and>
   limits_for_rep (- 2) = (1, 3600) \<and>
   sorted [T0, T0 + 1000000, T0 + 3601000000] \<and>
   valid_datetime T0 \<and> valid_datetime (T0 + 1000000) \<and> valid_datetime (T0 + 3601000000) \<and>
   actions_parse demo_codec demo_ledger \<and>
   fst (run_quota demo_codec 8 1 3600 [T0, T0 + 1000000, T0 + 3601000000] demo_ledger) =
     [Inr (True, 0), Inr (False, 3599), Inr (True, 0)] \<and>
   (\<forall>T. length (filter (in_trailing_window 3600 T)
          (allowed_times [T0, T0 + 1000000, T0 + 3601000000]
             (fst (run_quota demo_codec 8 1 3600 [T0, T0 + 1000000, T0 + 3601000000] demo_ledger))))
        \<le> nat 1) \<and>
   retry_after_spec demo_codec
     (demo_ledger\<lparr>broadcast_actions := [\<lparr>action_user_id = 8, used_at = demo_isoformat T0\<rparr>]\<rparr>)
     8 (T0 + 1000000) 3600 = Some 3599"
proof -
  have h3: "limits_for_rep (- 2) = (1, 3600)" by (simp add: limits_for_rep_def)
  have h4: "sorted [T0, T0 + 1000000, T0 + 3601000000]" by simp
  have v: "valid_datetime T0" "valid_datetime (T0 + 1000000)" "valid_datetime (T0 + 3601000000)"
    by (simp_all add: valid_datetime_def MIN_DATETIME_def MAX_DATETIME_def T0_def)
  then have h5: "\<forall>t\<in>set [T0, T0 + 1000000, T0 + 3601000000]. valid_datetime t" by simp
  note th = sliding_window_quota [OF demo_codec_monotone demo_codec_parses h3 h4 h5
      demo_ledger_actions_parse, of 8]
  from th have a: "\<forall>T. length (filter (in_trailing_window 3600 T)
          (allowed_times [T0, T0 + 1000000, T0 + 3601000000]
             (fst (run_quota demo_codec 8 1 3600 [T0, T0 + 1000000, T0 + 3601000000] demo_ledger))))
        \<le> nat 1"
    by blast
  from th have "(1::nat) < length [T0, T0 + 1000000, T0 + 3601000000] \<and>
      fst (run_quota demo_codec 8 1 3600 [T0, T0 + 1000000, T0 + 3601000000] demo_ledger) ! 1
        = Inr (False, 3599) \<longrightarrow>
      Some 3599 = retry_after_spec demo_codec
        (snd (run_quota demo_codec 8 1 3600 (take 1 [T0, T0 + 1000000, T0 + 3601000000]) demo_ledger))
        8 ([T0, T0 + 1000000, T0 + 3601000000] ! 1) 3600"
    by blast
  then have b: "retry_after_spec demo_codec
     (demo_ledger\<lparr>broadcast_actions := [\<lparr>action_user_id = 8, used_at = demo_isoformat T0\<rparr>]\<rparr>)
     8 (T0 + 1000000) 3600 = Some 3599"
    unfolding quota_run_strict quota_run_strict_prefix by simp
  show ?thesis
    using demo_codec_monotone demo_codec_parses h3 h4 v demo_ledger_actions_parse
      quota_run_strict a b by simp
qed

end
